theory Spec2Isabelle
  imports Complex_Main "HOL-Library.Word"
begin

section \<open>Double-precision values\<close>

text \<open>
  The program computes with \<^verbatim>\<open>f64 = double\<close>. A value of the model is one of the
  IEEE-754 special values (the two infinities, the negative zero, not-a-number) or a finite
  number \<open>Fin x\<close>; \<open>Fin 0\<close> is the positive zero. The operations follow the IEEE-754
  rules for the special values and for the sign of a zero result; on finite operands the
  result is the exact real one, so rounding and overflow of finite results are abstracted
  away, and all the bit patterns of not-a-number are the one value \<open>NaN\<close>. Equality of
  two model values stands for equality of the bit patterns of the two doubles, which the
  program tests through \<^verbatim>\<open>reinterpret_cast<unsigned long long*>\<close>; it differs from
  the arithmetic comparison \<open>feq\<close> on \<open>NaN\<close> and on the two zeros. The build passes
  \<^verbatim>\<open>-Ofast\<close>, which lets the compiler depart from these rules; the model is of the
  program as IEEE-754 arithmetic runs it.
\<close>

datatype f64 = Fin real | NZero | PInf | NInf | NaN

type_synonym u32 = "32 word"

fun is_nan :: "f64 \<Rightarrow> bool" where
  "is_nan NaN = True"
| "is_nan _ = False"

fun is_inf :: "f64 \<Rightarrow> bool" where
  "is_inf PInf = True"
| "is_inf NInf = True"
| "is_inf _ = False"

fun is_finite :: "f64 \<Rightarrow> bool" where
  "is_finite (Fin x) = True"
| "is_finite NZero = True"
| "is_finite _ = False"

text \<open>The sign bit (of a value that is not \<open>NaN\<close>).\<close>

fun sign_bit :: "f64 \<Rightarrow> bool" where
  "sign_bit (Fin x) = (x < 0)"
| "sign_bit NZero = True"
| "sign_bit NInf = True"
| "sign_bit _ = False"

text \<open>The number a finite value stands for.\<close>

fun real_of :: "f64 \<Rightarrow> real" where
  "real_of (Fin x) = x"
| "real_of _ = 0"

fun is_zero :: "f64 \<Rightarrow> bool" where
  "is_zero (Fin x) = (x = 0)"
| "is_zero NZero = True"
| "is_zero _ = False"

definition signed_inf :: "bool \<Rightarrow> f64" where
  "signed_inf neg = (if neg then NInf else PInf)"

text \<open>A finite result with the sign the operation gives it: a zero keeps that sign.\<close>

definition signed_fin :: "bool \<Rightarrow> real \<Rightarrow> f64" where
  "signed_fin neg x = (if x = 0 \<and> neg then NZero else Fin x)"

definition fneg :: "f64 \<Rightarrow> f64" where
  "fneg a = (case a of
     Fin x \<Rightarrow> (if x = 0 then NZero else Fin (- x))
   | NZero \<Rightarrow> Fin 0
   | PInf \<Rightarrow> NInf
   | NInf \<Rightarrow> PInf
   | NaN \<Rightarrow> NaN)"

definition fadd :: "f64 \<Rightarrow> f64 \<Rightarrow> f64" where
  "fadd a b =
    (if is_nan a \<or> is_nan b then NaN
     else if is_inf a \<and> is_inf b then (if a = b then a else NaN)
     else if is_inf a then a
     else if is_inf b then b
     else if a = NZero \<and> b = NZero then NZero
     else Fin (real_of a + real_of b))"

definition fsub :: "f64 \<Rightarrow> f64 \<Rightarrow> f64" where
  "fsub a b = fadd a (fneg b)"

definition fmul :: "f64 \<Rightarrow> f64 \<Rightarrow> f64" where
  "fmul a b =
    (if is_nan a \<or> is_nan b then NaN
     else if (is_inf a \<and> is_zero b) \<or> (is_zero a \<and> is_inf b) then NaN
     else if is_inf a \<or> is_inf b then signed_inf (sign_bit a \<noteq> sign_bit b)
     else signed_fin (sign_bit a \<noteq> sign_bit b) (real_of a * real_of b))"

definition fdiv :: "f64 \<Rightarrow> f64 \<Rightarrow> f64" where
  "fdiv a b =
    (if is_nan a \<or> is_nan b then NaN
     else if (is_inf a \<and> is_inf b) \<or> (is_zero a \<and> is_zero b) then NaN
     else if is_inf a \<or> is_zero b then signed_inf (sign_bit a \<noteq> sign_bit b)
     else if is_inf b then signed_fin (sign_bit a \<noteq> sign_bit b) 0
     else signed_fin (sign_bit a \<noteq> sign_bit b) (real_of a / real_of b))"

definition fsqrt :: "f64 \<Rightarrow> f64" where
  "fsqrt a = (case a of
     Fin x \<Rightarrow> (if x < 0 then NaN else Fin (sqrt x))
   | NZero \<Rightarrow> NZero
   | PInf \<Rightarrow> PInf
   | NInf \<Rightarrow> NaN
   | NaN \<Rightarrow> NaN)"

text \<open>The comparison \<^verbatim>\<open><\<close>: false as soon as an operand is \<open>NaN\<close>.\<close>

definition flt :: "f64 \<Rightarrow> f64 \<Rightarrow> bool" where
  "flt a b =
    (if is_nan a \<or> is_nan b then False
     else if a = PInf \<or> b = NInf then False
     else if a = NInf \<or> b = PInf then True
     else real_of a < real_of b)"

text \<open>The comparison \<^verbatim>\<open>==\<close> of two doubles.\<close>

definition feq :: "f64 \<Rightarrow> f64 \<Rightarrow> bool" where
  "feq a b =
    (if is_nan a \<or> is_nan b then False
     else if is_inf a \<or> is_inf b then a = b
     else real_of a = real_of b)"

text \<open>The conversion of an \<^verbatim>\<open>unsigned\<close> to a double, which is exact.\<close>

definition of_u32 :: "u32 \<Rightarrow> f64" where
  "of_u32 w = Fin (real (unat w))"

section \<open>settings.h\<close>

definition REPLICATES :: u32 where
  "REPLICATES = 10"

definition DIMENSION :: u32 where
  "DIMENSION = 3"

definition POINTS :: u32 where
  "POINTS = 1000000000"

definition SIZE :: u32 where
  "SIZE = POINTS * DIMENSION"

section \<open>The random stream\<close>

text \<open>
  \<^verbatim>\<open>CLHEP::MTwistEngine\<close> is a library outside the repository. The model takes the
  engine's state as a type \<open>'g\<close> and its method \<^verbatim>\<open>flat()\<close> as a parameter
  \<open>flat\<close>, which returns the value drawn and the state the engine is left in.
\<close>

type_synonym 'g flat_fn = "'g \<Rightarrow> f64 \<times> 'g"

text \<open>The first \<open>n\<close> values an engine in state \<open>g\<close> draws, and the state after them.\<close>

fun draws :: "'g flat_fn \<Rightarrow> nat \<Rightarrow> 'g \<Rightarrow> f64 list" where
  "draws flat 0 g = []"
| "draws flat (Suc n) g = fst (flat g) # draws flat n (snd (flat g))"

fun rng_after :: "'g flat_fn \<Rightarrow> nat \<Rightarrow> 'g \<Rightarrow> 'g" where
  "rng_after flat 0 g = g"
| "rng_after flat (Suc n) g = rng_after flat n (snd (flat g))"

section \<open>estimation.cpp: the state of a simulation\<close>

text \<open>
  The field \<^verbatim>\<open>value\<close> is \<open>value_f64\<close> here. The field \<^verbatim>\<open>thread\<close> is a handle
  with no content of its own. The duration is what the clock measured: it is an input of
  the run, in seconds.
\<close>

record 'g State =
  rng :: 'g
  value_f64 :: f64
  duration :: f64

text \<open>
  The loop \<^verbatim>\<open>for (unsigned i = points; i--;)\<close> of \<^verbatim>\<open>computeSphereVolume\<close>, with the
  engine and the counter \<^verbatim>\<open>in\<close> it updates.
\<close>

function sphere_loop :: "'g flat_fn \<Rightarrow> u32 \<Rightarrow> 'g \<Rightarrow> u32 \<Rightarrow> 'g \<times> u32" where
  "sphere_loop flat i g in_cnt =
    (if i = 0 then (g, in_cnt)
     else
       let (x, g1) = flat g;
           sum = fmul x x;
           (c, g2) = flat g1;
           sum = fadd sum (fmul c c);
           (c, g3) = flat g2;
           sum = fadd sum (fmul c c)
       in sphere_loop flat (i - 1) g3 (if flt sum (Fin 1) then in_cnt + 1 else in_cnt))"
  by pat_completeness auto
termination
  by (relation "measure (\<lambda>(flat, i, g, in_cnt). unat i)") (auto simp: unat_minus_one unat_gt_0)

declare sphere_loop.simps [simp del]

definition computeSphereVolume :: "'g flat_fn \<Rightarrow> u32 \<Rightarrow> f64 \<Rightarrow> 'g State \<Rightarrow> 'g State" where
  "computeSphereVolume flat points elapsed s =
    (let (g, in_cnt) = sphere_loop flat points (rng s) 0
     in s\<lparr>rng := g,
          value_f64 := fdiv (fmul (Fin 8) (of_u32 in_cnt)) (of_u32 points),
          duration := elapsed\<rparr>)"

text \<open>
  \<^verbatim>\<open>start\<close> runs \<^verbatim>\<open>computeSphereVolume\<close> in a thread of its own. The thread
  works on its own \<^verbatim>\<open>State\<close> and on nothing else, so what \<^verbatim>\<open>join\<close> finds in the
  state is what the call leaves there.
\<close>

definition start :: "'g flat_fn \<Rightarrow> u32 \<Rightarrow> f64 \<Rightarrow> 'g State \<Rightarrow> 'g State" where
  "start flat points elapsed s = computeSphereVolume flat points elapsed s"

subsection \<open>Status files\<close>

text \<open>The decimal digits of a number, as \<^verbatim>\<open>%d\<close> prints a value that is not negative.\<close>

definition digit_char :: "nat \<Rightarrow> char" where
  "digit_char d = char_of (48 + d)"

fun dec :: "nat \<Rightarrow> string" where
  "dec n = (if n < 10 then [digit_char n] else dec (n div 10) @ [digit_char (n mod 10)])"

declare dec.simps [simp del]

text \<open>Reading a decimal numeral back.\<close>

definition undec :: "string \<Rightarrow> nat" where
  "undec s = foldl (\<lambda>a c. 10 * a + (of_char c - 48)) 0 s"

text \<open>\<^verbatim>\<open>%02d\<close>: at least two digits, padded with zeros on the left.\<close>

definition dec02 :: "nat \<Rightarrow> string" where
  "dec02 n = (if n < 10 then CHR ''0'' # dec n else dec n)"

text \<open>\<^verbatim>\<open>sprintf(s, "../status/status-%02d", seq)\<close>\<close>

definition status_name :: "nat \<Rightarrow> string" where
  "status_name seq = ''../status/status-'' @ dec02 seq"

text \<open>
  The status files are a map from file names to the engine states saved in them.
  \<^verbatim>\<open>saveStatus\<close> and \<^verbatim>\<open>restoreStatus\<close> are methods of the library's engine, both
  returning \<^verbatim>\<open>void\<close>. \<^verbatim>\<open>saveStatus\<close> writes the whole state of the engine. When
  \<^verbatim>\<open>restoreStatus\<close> cannot open the file it reports that on the error stream and
  returns, leaving the engine as it was.
\<close>

type_synonym 'g files = "string \<rightharpoonup> 'g"

definition saveStatus :: "string \<Rightarrow> 'g \<Rightarrow> 'g files \<Rightarrow> 'g files" where
  "saveStatus name g files = files(name \<mapsto> g)"

definition restoreStatus :: "'g files \<Rightarrow> string \<Rightarrow> 'g \<Rightarrow> 'g" where
  "restoreStatus files name g = (case files name of Some g' \<Rightarrow> g' | None \<Rightarrow> g)"

definition initRng :: "'g files \<Rightarrow> nat \<Rightarrow> 'g State \<Rightarrow> 'g State" where
  "initRng files seq s = s\<lparr>rng := restoreStatus files (status_name seq) (rng s)\<rparr>"

subsection \<open>printResult\<close>

definition STUDENT :: "f64 list" where
  "STUDENT =
    [PInf, Fin 63.66, Fin 9.925, Fin 5.841, Fin 4.604, Fin 4.032, Fin 3.707, Fin 3.499,
     Fin 3.355, Fin 3.25, Fin 3.169, Fin 3.106, Fin 3.055, Fin 3.012, Fin 2.977,
     Fin 2.947, Fin 2.921, Fin 2.898, Fin 2.878, Fin 2.861, Fin 2.845, Fin 2.831,
     Fin 2.819, Fin 2.807, Fin 2.797, Fin 2.787, Fin 2.779, Fin 2.771, Fin 2.763,
     Fin 2.756, Fin 2.75,
     Fin 2.704, Fin 2.678, Fin 2.66, Fin 2.639, Fin 2.626, Fin 2.617, Fin 2.576]"

definition real_value :: f64 where
  "real_value = Fin (4 * pi / 3)"

text \<open>What \<^verbatim>\<open>printResult\<close> prints, line by line.\<close>

record Report =
  rep_replicates :: u32
  rep_mean :: f64
  rep_variance :: f64
  rep_ub_variance :: f64
  rep_std_deviation :: f64
  rep_abs_error :: f64
  rep_rel_error :: f64
  rep_std_error :: f64
  rep_interval :: "f64 \<times> f64"
  rep_location :: f64
  rep_radius :: f64

definition printResult :: "f64 \<Rightarrow> f64 \<Rightarrow> u32 \<Rightarrow> Report" where
  "printResult mean variance replicates =
    (let ub_variance = fdiv (fmul (of_u32 replicates) variance) (of_u32 (replicates - 1));
         error = fsub real_value mean;
         R = fsqrt (fdiv ub_variance (of_u32 replicates));
         R = (if replicates \<le> 30 then fmul R (STUDENT ! unat replicates)
              else if replicates \<le> 60 then fmul R (STUDENT ! unat (27 + replicates div 10))
              else if replicates < 140 then fmul R (STUDENT ! unat (30 + replicates div 20))
              else fmul R (STUDENT ! 37));
         location = fdiv (fmul (fadd error R) (Fin 100)) R;
         location = (if flt (Fin 100) location then fsub (Fin 200) location else location)
     in \<lparr>rep_replicates = replicates,
         rep_mean = mean,
         rep_variance = variance,
         rep_ub_variance = ub_variance,
         rep_std_deviation = fsqrt variance,
         rep_abs_error = error,
         rep_rel_error = fdiv (fmul (Fin 100) error) real_value,
         rep_std_error = fsqrt (fdiv variance (of_u32 replicates)),
         rep_interval = (fsub mean R, fadd mean R),
         rep_location = location,
         rep_radius = R\<rparr>)"

subsection \<open>main\<close>

text \<open>
  \<^verbatim>\<open>main\<close> works with the constants \<^verbatim>\<open>REPLICATES\<close> and \<^verbatim>\<open>POINTS\<close>; the model
  takes them as the arguments \<open>K\<close> and \<open>points\<close>. Its other arguments are what the run
  finds: the engine's \<open>flat\<close>, the status files, the array \<^verbatim>\<open>states\<close> as its
  declaration leaves it (\<open>K\<close> elements), and what the clock measures for each simulation
  of the threaded pass (\<open>el_thread\<close>) and of the sequential one (\<open>el_seq\<close>).
\<close>

text \<open>\<^verbatim>\<open>for (int i = 0; i < REPLICATES; i++) states[i].initRng(i);\<close>\<close>

definition load_states :: "'g files \<Rightarrow> u32 \<Rightarrow> 'g State list \<Rightarrow> 'g State list" where
  "load_states files K states =
     fold (\<lambda>i sts. sts[i := initRng files i (sts ! i)]) [0..<unat K] states"

text \<open>\<^verbatim>\<open>for (auto& state : states) state.start();\<close>, each thread run to its end.\<close>

definition start_states :: "'g flat_fn \<Rightarrow> u32 \<Rightarrow> (nat \<Rightarrow> f64) \<Rightarrow> 'g State list \<Rightarrow> 'g State list" where
  "start_states flat points el_thread states =
     map (\<lambda>(i, s). start flat points (el_thread i) s) (enumerate 0 states)"

text \<open>
  The loop that joins the threads: it fills \<^verbatim>\<open>results\<close> and adds up \<^verbatim>\<open>mean\<close> and
  \<^verbatim>\<open>squared_mean\<close>.
\<close>

definition join_states :: "u32 \<Rightarrow> 'g State list \<Rightarrow> f64 list \<times> f64 \<times> f64" where
  "join_states K states =
     fold (\<lambda>i (results, mean, squared_mean).
             let v = value_f64 (states ! i)
             in (results @ [v], fadd mean v, fadd squared_mean (fmul v v)))
          [0..<unat K] ([], Fin 0, Fin 0)"

text \<open>The division of the two sums by \<^verbatim>\<open>REPLICATES\<close> and the call of \<^verbatim>\<open>printResult\<close>.\<close>

definition report_of :: "u32 \<Rightarrow> f64 \<Rightarrow> f64 \<Rightarrow> Report" where
  "report_of K mean squared_mean =
    (let mean = fdiv mean (of_u32 K);
         squared_mean = fdiv squared_mean (of_u32 K)
     in printResult mean (fsub squared_mean (fmul mean mean)) K)"

datatype verdict = Confirmed | Issue f64 f64

text \<open>
  The sequential loop: run the simulation, compare the bit patterns of its value and of
  the threaded one, add the duration.
\<close>

definition sequential_pass ::
  "'g flat_fn \<Rightarrow> u32 \<Rightarrow> u32 \<Rightarrow> (nat \<Rightarrow> f64) \<Rightarrow> f64 list \<Rightarrow> 'g State list \<Rightarrow>
   'g State list \<times> verdict list \<times> f64" where
  "sequential_pass flat K points el_seq results states =
     fold (\<lambda>i (sts, verdicts, dur).
             let s = computeSphereVolume flat points (el_seq i) (sts ! i);
                 v = (if value_f64 s = results ! i then Confirmed
                      else Issue (value_f64 s) (results ! i))
             in (sts[i := s], verdicts @ [v], fadd dur (duration s)))
          [0..<unat K] (states, [], Fin 0)"

record 'g Output =
  out_results :: "f64 list"
  out_report :: Report
  out_verdicts :: "verdict list"
  out_sequential_time :: f64
  out_states :: "'g State list"

definition estimation_main ::
  "'g flat_fn \<Rightarrow> u32 \<Rightarrow> u32 \<Rightarrow> 'g files \<Rightarrow> (nat \<Rightarrow> f64) \<Rightarrow> (nat \<Rightarrow> f64) \<Rightarrow>
   'g State list \<Rightarrow> 'g Output" where
  "estimation_main flat K points files el_thread el_seq states =
    (let states = load_states files K states;
         states = start_states flat points el_thread states;
         (results, mean, squared_mean) = join_states K states;
         report = report_of K mean squared_mean;
         states = load_states files K states;
         (states, verdicts, dur) = sequential_pass flat K points el_seq results states
     in \<lparr>out_results = results,
         out_report = report,
         out_verdicts = verdicts,
         out_sequential_time = dur,
         out_states = states\<rparr>)"

section \<open>genmt.cpp\<close>

text \<open>\<^verbatim>\<open>for (unsigned u = SIZE; u--;) (void)mtRng.flat();\<close>\<close>

function discard_loop :: "'g flat_fn \<Rightarrow> u32 \<Rightarrow> 'g \<Rightarrow> 'g" where
  "discard_loop flat u g = (if u = 0 then g else discard_loop flat (u - 1) (snd (flat g)))"
  by pat_completeness auto
termination
  by (relation "measure (\<lambda>(flat, u, g). unat u)") (auto simp: unat_minus_one unat_gt_0)

declare discard_loop.simps [simp del]

text \<open>
  \<^verbatim>\<open>main\<close> of the status generator, with \<^verbatim>\<open>REPLICATES\<close> and \<^verbatim>\<open>SIZE\<close> as the
  arguments \<open>K\<close> and \<open>S\<close>, and the engine as its constructor seeded it as \<open>g0\<close>. It
  returns the status files and the engine.
\<close>

definition genmt_main :: "'g flat_fn \<Rightarrow> u32 \<Rightarrow> u32 \<Rightarrow> 'g \<Rightarrow> 'g files \<Rightarrow> 'g files \<times> 'g" where
  "genmt_main flat K S g0 files =
     fold (\<lambda>i (fs, mtRng).
             let mtRng = discard_loop flat S mtRng
             in (saveStatus (status_name i) mtRng fs, mtRng))
          [0..<unat K] (files, g0)"

section \<open>What the specification speaks of\<close>

text \<open>The consecutive triples of a sequence of draws.\<close>

fun triples :: "'a list \<Rightarrow> ('a \<times> 'a \<times> 'a) list" where
  "triples (x # y # z # r) = (x, y, z) # triples r"
| "triples _ = []"

text \<open>A point is inside when \<open>x\<^sup>2 + y\<^sup>2 + z\<^sup>2 < 1\<close>, computed in doubles.\<close>

definition inside :: "f64 \<times> f64 \<times> f64 \<Rightarrow> bool" where
  "inside p = (case p of (x, y, z) \<Rightarrow>
     flt (fadd (fadd (fmul x x) (fmul y y)) (fmul z z)) (Fin 1))"

text \<open>The number of points inside among the first \<open>n\<close> triples an engine draws.\<close>

definition inside_count :: "'g flat_fn \<Rightarrow> nat \<Rightarrow> 'g \<Rightarrow> nat" where
  "inside_count flat n g = length (filter inside (triples (draws flat (3 * n) g)))"

text \<open>The draw number \<open>n\<close> (from 0) of an engine in state \<open>g\<close>.\<close>

definition nth_draw :: "'g flat_fn \<Rightarrow> 'g \<Rightarrow> nat \<Rightarrow> f64" where
  "nth_draw flat g n = fst (flat (rng_after flat n g))"

text \<open>
  The report of a run whose threads have left the array \<open>states\<close>: the joining loop,
  then the division and \<^verbatim>\<open>printResult\<close>.
\<close>

definition statistics :: "u32 \<Rightarrow> 'g State list \<Rightarrow> Report" where
  "statistics K states =
    (let (results, mean, squared_mean) = join_states K states
     in report_of K mean squared_mean)"

text \<open>
  The index into \<open>STUDENT\<close> in terms of the number of replicates as a natural number:
  the tiers of the coefficient.
\<close>

definition student_tier :: "nat \<Rightarrow> nat" where
  "student_tier k =
    (if k \<le> 30 then k
     else if k \<le> 60 then 27 + k div 10
     else if k < 140 then 30 + k div 20
     else 37)"

subsection \<open>An engine to evaluate the model with\<close>

text \<open>
  Its state counts the draws; the value drawn is the fractional part of
  \<open>state / 2\<^sup>3\<^sup>2\<close>, in \<open>[0, 1)\<close>.
\<close>

definition counter_flat :: "nat flat_fn" where
  "counter_flat n = (Fin (real (n mod 2 ^ 32) / 2 ^ 32), Suc n)"

definition demo_state :: "nat State" where
  "demo_state = \<lparr>rng = 4294967293, value_f64 = NaN, duration = NaN\<rparr>"

section \<open>Properties\<close>

subsection \<open>Arithmetic of doubles and of unsigned numbers\<close>

text \<open>The number an unsigned value stands for is written \<open>real (unat w)\<close> throughout.\<close>

declare of_nat_unat [simp del]

lemma fadd_Fin: "fadd (Fin a) (Fin b) = Fin (a + b)"
  by (simp add: fadd_def)

lemma fsub_Fin: "fsub (Fin a) (Fin b) = Fin (a - b)"
  by (simp add: fsub_def fneg_def fadd_def)

lemma fmul_Fin_nonneg: "0 \<le> a \<Longrightarrow> 0 \<le> b \<Longrightarrow> fmul (Fin a) (Fin b) = Fin (a * b)"
  by (simp add: fmul_def signed_fin_def)

lemma fmul_Fin_pos: "0 < a \<Longrightarrow> fmul (Fin a) (Fin b) = Fin (a * b)"
  by (simp add: fmul_def signed_fin_def)

lemma fmul_Fin_square: "fmul (Fin a) (Fin a) = Fin (a * a)"
  by (simp add: fmul_def signed_fin_def)

lemma fdiv_Fin_pos: "0 < b \<Longrightarrow> fdiv (Fin a) (Fin b) = Fin (a / b)"
  by (simp add: fdiv_def signed_fin_def)

text \<open>Equality of bit patterns is not the comparison \<^verbatim>\<open>==\<close>.\<close>

lemma bit_equality_is_not_feq:
  "\<not> feq NaN NaN" "feq (Fin 0) NZero" "Fin 0 \<noteq> NZero" "feq (Fin x) (Fin y) \<longleftrightarrow> Fin x = Fin y"
  by (simp_all add: feq_def)

lemma unat_of_nat_u32: "n < 2 ^ 32 \<Longrightarrow> unat (of_nat n :: u32) = n"
  by (rule of_nat_inverse) simp_all

lemma unat_lt_u32: "unat (w :: u32) < 2 ^ 32"
  using unsigned_less [of w, where 'a = nat] by simp

subsection \<open>The sampling loop\<close>

lemma length_draws [simp]: "length (draws flat n g) = n"
  by (induction n arbitrary: g) auto

lemma draws_numeral:
  "draws flat (numeral k) g = fst (flat g) # draws flat (pred_numeral k) (snd (flat g))"
  by (simp add: numeral_eq_Suc)

lemma rng_after_numeral:
  "rng_after flat (numeral k) g = rng_after flat (pred_numeral k) (snd (flat g))"
  by (simp add: numeral_eq_Suc)

lemma length_triples_le: "length (triples xs) \<le> length xs div 3"
  by (induction xs rule: triples.induct) auto

lemma inside_count_le: "inside_count flat n g \<le> n"
proof -
  have "inside_count flat n g \<le> length (triples (draws flat (3 * n) g))"
    by (simp add: inside_count_def)
  also have "\<dots> \<le> length (draws flat (3 * n) g) div 3"
    by (rule length_triples_le)
  finally show ?thesis by simp
qed

lemma draws_three:
  "draws flat (3 * Suc n) g =
     fst (flat g) # fst (flat (snd (flat g))) # fst (flat (snd (flat (snd (flat g))))) #
     draws flat (3 * n) (snd (flat (snd (flat (snd (flat g))))))"
proof -
  have "3 * Suc n = Suc (Suc (Suc (3 * n)))" by simp
  then show ?thesis by (simp del: mult_Suc_right)
qed

lemma rng_after_three:
  "rng_after flat (3 * Suc n) g = rng_after flat (3 * n) (snd (flat (snd (flat (snd (flat g))))))"
proof -
  have "3 * Suc n = Suc (Suc (Suc (3 * n)))" by simp
  then show ?thesis by (simp del: mult_Suc_right)
qed

lemma inside_count_Suc:
  "inside_count flat (Suc n) g =
    (if inside (fst (flat g), fst (flat (snd (flat g))), fst (flat (snd (flat (snd (flat g))))))
     then 1 else 0) + inside_count flat n (snd (flat (snd (flat (snd (flat g))))))"
  unfolding inside_count_def draws_three by simp

text \<open>The loop run from \<open>i = n\<close>: it draws \<open>3 n\<close> values and counts the triples inside.\<close>

lemma sphere_loop_eq:
  "n < 2 ^ 32 \<Longrightarrow>
   sphere_loop flat (of_nat n) g c =
     (rng_after flat (3 * n) g, c + of_nat (inside_count flat n g))"
proof (induction n arbitrary: g c)
  case 0
  show ?case by (simp add: sphere_loop.simps inside_count_def)
next
  case (Suc n)
  have nz: "(of_nat (Suc n) :: u32) \<noteq> 0"
    using Suc.prems by (intro of_nat_neq_0) simp_all
  have pred: "(of_nat (Suc n) :: u32) - 1 = of_nat n" by simp
  have n: "n < 2 ^ 32" using Suc.prems by simp
  show ?case
    apply (subst sphere_loop.simps)
    apply (simp only: nz if_False pred Let_def split_beta Suc.IH [OF n] rng_after_three inside_count_Suc)
    apply (simp add: inside_def)
    done
qed

lemma sphere_loop_points:
  "sphere_loop flat points g 0 =
     (rng_after flat (3 * unat points) g, of_nat (inside_count flat (unat points) g))"
  using sphere_loop_eq [of "unat points" flat g 0] unat_lt_u32 [of points]
  by (simp add: of_nat_unat)

lemma rng_computeSphereVolume:
  "rng (computeSphereVolume flat points elapsed s) = rng_after flat (3 * unat points) (rng s)"
  by (simp add: computeSphereVolume_def sphere_loop_points)

lemma of_u32_inside_count:
  "of_u32 (of_nat (inside_count flat (unat (points :: u32)) g)) =
     Fin (real (inside_count flat (unat points) g))"
proof -
  have "inside_count flat (unat points) g \<le> unat points" by (rule inside_count_le)
  then have "unat (of_nat (inside_count flat (unat points) g) :: u32) =
      inside_count flat (unat points) g"
    using unat_lt_u32 [of points] by (intro unat_of_nat_u32) simp
  then show ?thesis by (simp only: of_u32_def)
qed

lemma value_computeSphereVolume:
  "value_f64 (computeSphereVolume flat points elapsed s) =
     fdiv (fmul (Fin 8) (Fin (real (inside_count flat (unat points) (rng s)))))
          (of_u32 points)"
  by (simp add: computeSphereVolume_def sphere_loop_points of_u32_inside_count)

lemma inside_count_demo: "inside_count counter_flat 2 4294967293 = 1"
  by (simp add: inside_count_def draws_numeral counter_flat_def inside_def fmul_def fadd_def
      flt_def signed_fin_def)

lemma rng_after_demo: "rng_after counter_flat 6 4294967293 = 4294967299"
  by (simp add: rng_after_numeral counter_flat_def)

text \<open>
  C1. For every \<open>points \<ge> 1\<close> and every state of the engine, \<open>computeSphereVolume\<close>
  leaves the engine where \<open>3 \<times> points\<close> draws take it, and its value is
  \<open>8 \<times> inside / points\<close>, where \<open>inside\<close> counts, among the consecutive triples
  \<open>(x, y, z)\<close> of these draws, those with \<open>x\<^sup>2 + y\<^sup>2 + z\<^sup>2 < 1\<close>.
\<close>

theorem computeSphereVolume_estimate:
  assumes "points \<noteq> 0"
  shows "rng (computeSphereVolume flat points elapsed s) =
           rng_after flat (3 * unat points) (rng s) \<and>
         value_f64 (computeSphereVolume flat points elapsed s) =
           Fin (8 * real (inside_count flat (unat points) (rng s)) / real (unat points))"
proof -
  let ?n = "unat points"
  let ?c = "inside_count flat ?n (rng s)"
  have "0 < ?n" using assms by (simp add: unat_gt_0)
  then have pos: "0 < real ?n" by (simp only: of_nat_0_less_iff)
  have e: "fdiv (fmul (Fin 8) (Fin (real ?c))) (Fin (real ?n)) = Fin (8 * real ?c / real ?n)"
    using pos by (simp add: fmul_Fin_nonneg fdiv_Fin_pos)
  have p: "of_u32 points = Fin (real ?n)"
    by (simp only: of_u32_def)
  show ?thesis
    by (simp only: value_computeSphereVolume rng_computeSphereVolume p e)
qed

theorem computeSphereVolume_estimate_witness:
  "(2 :: u32) \<noteq> 0 \<and>
   rng (computeSphereVolume counter_flat 2 (Fin 1) demo_state) = 4294967299 \<and>
   value_f64 (computeSphereVolume counter_flat 2 (Fin 1) demo_state) = Fin 4"
  using computeSphereVolume_estimate [of 2 counter_flat "Fin 1" demo_state]
  by (simp add: inside_count_demo rng_after_demo demo_state_def)

text \<open>
  C10. With \<open>points = 0\<close> the loop of \<open>computeSphereVolume\<close> runs no iteration (the
  engine is left as it was) and the value is \<open>8 \<times> 0 / 0\<close>, which is \<open>NaN\<close>; the call
  returns as any other does.
\<close>

theorem computeSphereVolume_zero_points:
  "computeSphereVolume flat 0 elapsed s = s\<lparr>value_f64 := NaN, duration := elapsed\<rparr>"
  by (simp add: computeSphereVolume_def sphere_loop.simps of_u32_def fmul_def fdiv_def
      signed_fin_def)

subsection \<open>Bounds on \<open>\<pi>\<close>\<close>

lemma arctan_partial_sums:
  fixes x :: real
  assumes "0 < x" and "x \<le> 1"
  shows "(\<Sum>i<2 * n. (- 1) ^ i * (1 / real (i * 2 + 1) * x ^ (i * 2 + 1))) \<le> arctan x"
    and "arctan x \<le> (\<Sum>i<2 * n + 1. (- 1) ^ i * (1 / real (i * 2 + 1) * x ^ (i * 2 + 1)))"
proof -
  let ?a = "\<lambda>n. 1 / real (n * 2 + 1) * x ^ (n * 2 + 1)"
  have ax: "\<bar>x\<bar> \<le> 1" using assms by simp
  have "0 < ?a 0" using assms by simp
  then have "(\<Sum>i. (- 1) ^ i * ?a i) \<in>
      {\<Sum>i<2 * n. (- 1) ^ i * ?a i .. \<Sum>i<2 * n + 1. (- 1) ^ i * ?a i}"
    using summable_Leibniz(2) [OF zeroseq_arctan_series [OF ax] monoseq_arctan_series [OF ax]]
    by blast
  then show "(\<Sum>i<2 * n. (- 1) ^ i * ?a i) \<le> arctan x"
    and "arctan x \<le> (\<Sum>i<2 * n + 1. (- 1) ^ i * ?a i)"
    by (simp_all add: arctan_series [OF ax])
qed

lemma arctan_fifth_bounds:
  "1 / 5 - 1 / 375 + 1 / 15625 - 1 / 546875 \<le> arctan (1 / 5 :: real)"
  "arctan (1 / 5 :: real) \<le> 1 / 5 - 1 / 375 + 1 / 15625 - 1 / 546875 + 1 / 17578125"
  using arctan_partial_sums(1) [of "1 / 5" 2] arctan_partial_sums(2) [of "1 / 5" 2]
  by (simp_all add: eval_nat_numeral)

lemma arctan_239_bounds:
  "1 / 239 - 1 / 40955757 \<le> arctan (1 / 239 :: real)"
  "arctan (1 / 239 :: real) \<le> 1 / 239"
  using arctan_partial_sums(1) [of "1 / 239" 1] arctan_partial_sums(2) [of "1 / 239" 0]
  by (simp_all add: eval_nat_numeral)

lemma pi_bounds: "3.14159 < pi" "pi < 3.1416"
proof -
  have "pi = 16 * arctan (1 / 5) - 4 * arctan (1 / 239)"
    using machin by simp
  then show "3.14159 < pi" "pi < 3.1416"
    using arctan_fifth_bounds arctan_239_bounds by simp_all
qed



subsection \<open>The statistics\<close>

lemma join_states_take:
  assumes "map value_f64 states = map Fin rs" and "n \<le> length rs"
  shows "fold (\<lambda>i (results, mean, squared_mean).
             let v = value_f64 (states ! i)
             in (results @ [v], fadd mean v, fadd squared_mean (fmul v v)))
          [0..<n] ([], Fin 0, Fin 0) =
         (map Fin (take n rs), Fin (sum_list (take n rs)),
          Fin (sum_list (map (\<lambda>x. x * x) (take n rs))))"
  using assms(2)
proof (induction n)
  case 0
  show ?case by simp
next
  case (Suc n)
  have len: "length states = length rs"
    using assms(1) by (metis length_map)
  have "value_f64 (states ! n) = Fin (rs ! n)"
    using assms(1) Suc.prems len by (metis Suc_le_lessD nth_map)
  with Suc show ?case
    by (simp add: take_Suc_conv_app_nth fadd_Fin fmul_Fin_square)
qed

lemma join_states_Fin:
  assumes "map value_f64 states = map Fin rs" and "length rs = unat K"
  shows "join_states K states =
    (map Fin rs, Fin (sum_list rs), Fin (sum_list (map (\<lambda>x. x * x) rs)))"
  using join_states_take [OF assms(1), of "unat K"] assms(2)
  by (simp add: join_states_def)

lemma of_u32_pred: "K \<noteq> 0 \<Longrightarrow> of_u32 (K - 1) = Fin (real (unat K) - 1)"
  by (simp add: of_u32_def unat_minus_one unat_gt_0 of_nat_diff Suc_leI)

lemma fmul_of_u32: "K \<noteq> 0 \<Longrightarrow> fmul (of_u32 K) (Fin v) = Fin (real (unat K) * v)"
  unfolding of_u32_def by (rule fmul_Fin_pos) (simp add: unat_gt_0)

lemma fdiv_of_u32: "K \<noteq> 0 \<Longrightarrow> fdiv (Fin v) (of_u32 K) = Fin (v / real (unat K))"
  unfolding of_u32_def by (rule fdiv_Fin_pos) (simp add: unat_gt_0)

lemma printResult_fields:
  "rep_mean (printResult mean variance K) = mean"
  "rep_variance (printResult mean variance K) = variance"
  "rep_ub_variance (printResult mean variance K) =
     fdiv (fmul (of_u32 K) variance) (of_u32 (K - 1))"
  "rep_std_deviation (printResult mean variance K) = fsqrt variance"
  "rep_abs_error (printResult mean variance K) = fsub real_value mean"
  by (simp_all add: printResult_def Let_def)

lemma report_of_Fin:
  assumes "K \<noteq> 0"
  shows "report_of K (Fin a) (Fin b) =
    printResult (Fin (a / real (unat K)))
      (Fin (b / real (unat K) - (a / real (unat K)) * (a / real (unat K)))) K"
  using assms by (simp add: report_of_def Let_def fdiv_of_u32 fmul_Fin_square fsub_Fin)

lemma ub_variance_Fin:
  assumes "2 \<le> unat K"
  shows "rep_ub_variance (printResult mean (Fin v) K) =
     Fin (real (unat K) * v / (real (unat K) - 1))"
proof -
  have nz: "K \<noteq> 0" using assms by auto
  have "0 < real (unat K) - 1" using assms by simp
  then show ?thesis
    by (simp only: printResult_fields fmul_of_u32 [OF nz] of_u32_pred [OF nz] fdiv_Fin_pos)
qed

lemma statistics_Fin:
  assumes "2 \<le> unat K" and "map value_f64 states = map Fin rs" and "length rs = unat K"
  shows "statistics K states =
    printResult (Fin (sum_list rs / real (unat K)))
      (Fin (sum_list (map (\<lambda>x. x * x) rs) / real (unat K) -
            (sum_list rs / real (unat K)) * (sum_list rs / real (unat K)))) K"
proof -
  have nz: "K \<noteq> 0" using assms(1) by auto
  show ?thesis
    by (simp add: statistics_def join_states_Fin [OF assms(2,3)] report_of_Fin [OF nz])
qed


lemma statistics_of_Fin:
  assumes "K \<noteq> 0" and "map value_f64 states = map Fin rs" and "length rs = unat K"
  shows "statistics K states =
    printResult (Fin (sum_list rs / real (unat K)))
      (Fin (sum_list (map (\<lambda>x. x * x) rs) / real (unat K) -
            (sum_list rs / real (unat K)) * (sum_list rs / real (unat K)))) K"
  by (simp add: statistics_def join_states_Fin [OF assms(2,3)] report_of_Fin [OF assms(1)])

subsection \<open>The Student coefficient\<close>

lemma student_index_word:
  fixes K :: u32
  shows "(if K \<le> 30 then unat K
          else if K \<le> 60 then unat (27 + K div 10)
          else if K < 140 then unat (30 + K div 20)
          else 37) = student_tier (unat K)"
proof -
  have d10: "unat (K div 10) = unat K div 10" by (simp add: unat_div)
  have d20: "unat (K div 20) = unat K div 20" by (simp add: unat_div)
  have a10: "unat (27 + K div 10) = 27 + unat K div 10" if "unat K \<le> 60"
  proof -
    have "unat (27 :: u32) + unat (K div 10) < 2 ^ LENGTH(32)"
      using that by (simp add: d10)
    then have "unat (27 + K div 10) = unat (27 :: u32) + unat (K div 10)"
      by (simp only: unat_add_lem)
    then show ?thesis by (simp add: d10)
  qed
  have a20: "unat (30 + K div 20) = 30 + unat K div 20" if "unat K < 140"
  proof -
    have "unat (30 :: u32) + unat (K div 20) < 2 ^ LENGTH(32)"
      using that by (simp add: d20)
    then have "unat (30 + K div 20) = unat (30 :: u32) + unat (K div 20)"
      by (simp only: unat_add_lem)
    then show ?thesis by (simp add: d20)
  qed
  show ?thesis
    by (auto simp add: student_tier_def word_le_nat_alt word_less_nat_alt a10 a20)
qed

lemma radius_printResult:
  "rep_radius (printResult mean variance K) =
     fmul (fsqrt (fdiv (rep_ub_variance (printResult mean variance K)) (of_u32 K)))
          (STUDENT ! student_tier (unat K))"
proof -
  have "rep_radius (printResult mean variance K) =
     fmul (fsqrt (fdiv (rep_ub_variance (printResult mean variance K)) (of_u32 K)))
          (STUDENT ! (if K \<le> 30 then unat K
          else if K \<le> 60 then unat (27 + K div 10)
          else if K < 140 then unat (30 + K div 20)
          else 37))"
    by (simp add: printResult_def Let_def)
  then show ?thesis by (simp only: student_index_word)
qed

lemma div10: "(k::nat) div 10 = q \<longleftrightarrow> 10 * q \<le> k \<and> k < 10 * q + 10"
  by arith

lemma div20: "(k::nat) div 20 = q \<longleftrightarrow> 20 * q \<le> k \<and> k < 20 * q + 20"
  by arith

lemma student_tier_buckets:
  "k \<le> 30 \<Longrightarrow> student_tier k = k"
  "31 \<le> k \<Longrightarrow> k \<le> 39 \<Longrightarrow> student_tier k = 30"
  "40 \<le> k \<Longrightarrow> k \<le> 49 \<Longrightarrow> student_tier k = 31"
  "50 \<le> k \<Longrightarrow> k \<le> 59 \<Longrightarrow> student_tier k = 32"
  "60 \<le> k \<Longrightarrow> k \<le> 79 \<Longrightarrow> student_tier k = 33"
  "80 \<le> k \<Longrightarrow> k \<le> 99 \<Longrightarrow> student_tier k = 34"
  "100 \<le> k \<Longrightarrow> k \<le> 119 \<Longrightarrow> student_tier k = 35"
  "120 \<le> k \<Longrightarrow> k \<le> 139 \<Longrightarrow> student_tier k = 36"
  "140 \<le> k \<Longrightarrow> student_tier k = 37"
proof -
  show "k \<le> 30 \<Longrightarrow> student_tier k = k"
    by (simp add: student_tier_def)
  show "31 \<le> k \<Longrightarrow> k \<le> 39 \<Longrightarrow> student_tier k = 30"
    using div10 [of k 3] by (simp add: student_tier_def)
  show "40 \<le> k \<Longrightarrow> k \<le> 49 \<Longrightarrow> student_tier k = 31"
    using div10 [of k 4] by (simp add: student_tier_def)
  show "50 \<le> k \<Longrightarrow> k \<le> 59 \<Longrightarrow> student_tier k = 32"
    using div10 [of k 5] by (simp add: student_tier_def)
  show "60 \<le> k \<Longrightarrow> k \<le> 79 \<Longrightarrow> student_tier k = 33"
    using div10 [of k 6] div20 [of k 3] by (simp add: student_tier_def)
  show "80 \<le> k \<Longrightarrow> k \<le> 99 \<Longrightarrow> student_tier k = 34"
    using div20 [of k 4] by (simp add: student_tier_def)
  show "100 \<le> k \<Longrightarrow> k \<le> 119 \<Longrightarrow> student_tier k = 35"
    using div20 [of k 5] by (simp add: student_tier_def)
  show "120 \<le> k \<Longrightarrow> k \<le> 139 \<Longrightarrow> student_tier k = 36"
    using div20 [of k 6] by (simp add: student_tier_def)
  show "140 \<le> k \<Longrightarrow> student_tier k = 37"
    by (simp add: student_tier_def)
qed


lemma student_tier_less: "student_tier k < length STUDENT"
proof -
  have len: "length STUDENT = 38" by (simp add: STUDENT_def)
  consider "k \<le> 30" | "31 \<le> k \<and> k \<le> 39" | "40 \<le> k \<and> k \<le> 49" | "50 \<le> k \<and> k \<le> 59"
    | "60 \<le> k \<and> k \<le> 79" | "80 \<le> k \<and> k \<le> 99" | "100 \<le> k \<and> k \<le> 119"
    | "120 \<le> k \<and> k \<le> 139" | "140 \<le> k"
    by linarith
  then show ?thesis
    by cases (simp_all add: len student_tier_buckets)
qed

lemma STUDENT_entries:
  "STUDENT ! 0 = PInf" "STUDENT ! 30 = Fin 2.75" "STUDENT ! 31 = Fin 2.704"
  "STUDENT ! 32 = Fin 2.678" "STUDENT ! 33 = Fin 2.66" "STUDENT ! 34 = Fin 2.639"
  "STUDENT ! 35 = Fin 2.626" "STUDENT ! 36 = Fin 2.617" "STUDENT ! 37 = Fin 2.576"
  by (simp_all add: STUDENT_def)

text \<open>
  C3, as the code has it. The confidence radius is \<open>sqrt (ub_variance / K)\<close> times the
  entry of \<open>STUDENT\<close> at index \<open>student_tier K\<close>, which is always inside the table:
  index \<open>K\<close> for \<open>K\<close> in \<open>[0, 30]\<close> (the entry for \<open>K = 0\<close> is infinite), the
  tens bucket \<open>27 + K div 10\<close> for \<open>K\<close> in \<open>[31, 60]\<close>, the twenties bucket
  \<open>30 + K div 20\<close> for \<open>K\<close> in \<open>[61, 139]\<close>, and the last entry, 2.576, from 140 on.
\<close>

theorem student_coefficient_tiers:
  "rep_radius (printResult mean variance K) =
     fmul (fsqrt (fdiv (rep_ub_variance (printResult mean variance K)) (of_u32 K)))
          (STUDENT ! student_tier (unat K)) \<and>
   student_tier (unat K) < length STUDENT \<and>
   (unat K \<le> 30 \<longrightarrow> student_tier (unat K) = unat K) \<and>
   (unat K = 0 \<longrightarrow> STUDENT ! student_tier (unat K) = PInf) \<and>
   (31 \<le> unat K \<and> unat K \<le> 39 \<longrightarrow> STUDENT ! student_tier (unat K) = Fin 2.75) \<and>
   (40 \<le> unat K \<and> unat K \<le> 49 \<longrightarrow> STUDENT ! student_tier (unat K) = Fin 2.704) \<and>
   (50 \<le> unat K \<and> unat K \<le> 59 \<longrightarrow> STUDENT ! student_tier (unat K) = Fin 2.678) \<and>
   (60 \<le> unat K \<and> unat K \<le> 79 \<longrightarrow> STUDENT ! student_tier (unat K) = Fin 2.66) \<and>
   (80 \<le> unat K \<and> unat K \<le> 99 \<longrightarrow> STUDENT ! student_tier (unat K) = Fin 2.639) \<and>
   (100 \<le> unat K \<and> unat K \<le> 119 \<longrightarrow> STUDENT ! student_tier (unat K) = Fin 2.626) \<and>
   (120 \<le> unat K \<and> unat K \<le> 139 \<longrightarrow> STUDENT ! student_tier (unat K) = Fin 2.617) \<and>
   (140 \<le> unat K \<longrightarrow> STUDENT ! student_tier (unat K) = Fin 2.576)"
  by (simp add: radius_printResult student_tier_less student_tier_buckets STUDENT_entries)

lemma ub_variance_45: "rep_ub_variance (printResult (Fin 4) (Fin 44) 45) = Fin 45"
  by (simp add: printResult_fields of_u32_def fmul_Fin_pos fdiv_Fin_pos)

theorem student_coefficient_tiers_witness:
  "40 \<le> unat (45 :: u32) \<and> unat (45 :: u32) \<le> 49 \<and>
   STUDENT ! student_tier (unat (45 :: u32)) = Fin 2.704 \<and>
   rep_radius (printResult (Fin 4) (Fin 44) 45) = Fin 2.704"
  using student_coefficient_tiers [of "Fin 4" "Fin 44" 45]
  by (simp add: ub_variance_45 of_u32_def fdiv_Fin_pos fsqrt_def fmul_Fin_pos)

lemma ub_variance_31: "rep_ub_variance (printResult (Fin 4) (Fin 30) 31) = Fin 31"
  by (simp add: printResult_fields of_u32_def fmul_Fin_pos fdiv_Fin_pos)

text \<open>
  At \<open>K = 31\<close> the radius is built with the entry at index 30, which is 2.75, and not
  with the entry at index 31, which is 2.704.
\<close>

theorem student_index_31_counterexample:
  "rep_radius (printResult (Fin 4) (Fin 30) 31) = Fin 2.75 \<and>
   fmul (fsqrt (fdiv (rep_ub_variance (printResult (Fin 4) (Fin 30) 31)) (of_u32 31)))
        (STUDENT ! unat (31 :: u32)) = Fin 2.704"
  by (simp add: radius_printResult ub_variance_31 of_u32_def fdiv_Fin_pos fsqrt_def fmul_Fin_pos
      student_tier_buckets STUDENT_entries)

subsection \<open>Degenerate numbers of replicates\<close>

lemma NaN_propagates [simp]:
  "fadd NaN b = NaN" "fadd a NaN = NaN" "fsub NaN b = NaN" "fsub a NaN = NaN"
  "fmul NaN b = NaN" "fmul a NaN = NaN" "fdiv NaN b = NaN" "fdiv a NaN = NaN"
  "fsqrt NaN = NaN" "\<not> flt NaN b" "\<not> flt a NaN"
  by (simp_all add: fadd_def fsub_def fneg_def fmul_def fdiv_def fsqrt_def flt_def)

lemma fdiv_by_zero_not_finite: "\<not> is_finite (fdiv a (Fin 0))"
  by (cases a) (simp_all add: fdiv_def signed_inf_def)

lemma ub_variance_one:
  "rep_ub_variance (printResult mean variance 1) = fdiv (fmul (Fin 1) variance) (Fin 0)"
  by (simp add: printResult_fields of_u32_def)

lemma mean_report_of_zero: "rep_mean (report_of 0 mean squared_mean) = fdiv mean (Fin 0)"
  by (simp add: report_of_def Let_def printResult_fields of_u32_def)

lemma statistics_zero: "statistics 0 states = report_of 0 (Fin 0) (Fin 0)"
  by (simp add: statistics_def join_states_def)

lemma fdiv_zero_zero: "fdiv (Fin 0) (Fin 0) = NaN"
  by (simp add: fdiv_def)

lemma fmul_one_zero: "fmul (Fin 1) (Fin 0) = Fin 0"
  by (simp add: fmul_Fin_pos)

lemma statistics_single:
  "statistics 1 [s\<lparr>value_f64 := Fin v\<rparr>] = printResult (Fin v) (Fin 0) 1"
  using statistics_of_Fin [of 1 "[s\<lparr>value_f64 := Fin v\<rparr>]" "[v]"] by simp

lemma fmul_one: "fmul (Fin 1) a = a"
  by (cases a) (simp_all add: fmul_def signed_fin_def signed_inf_def)

lemma fdiv_by_zero:
  "fdiv a (Fin 0) =
     (if is_nan a \<or> is_zero a then NaN else if sign_bit a then NInf else PInf)"
  by (cases a) (simp_all add: fdiv_def signed_inf_def)

text \<open>
  C5, as the code has it. \<open>printResult\<close> and the division by \<open>REPLICATES\<close> before it
  have no error path. With one replicate the unbiased variance is the variance over
  \<open>K - 1 = 0\<close>: it is \<open>NaN\<close> when the variance is a zero or \<open>NaN\<close>, minus infinity when
  the variance is negative and plus infinity when it is positive, and so never finite.
  With no replicate the mean is the sum over zero, \<open>NaN\<close> or an infinity in the same way:
  it is \<open>NaN\<close> for the sums that the empty loop leaves at zero. These values are what the
  report holds.
\<close>

theorem degenerate_replicates_not_finite:
  "rep_ub_variance (printResult mean variance 1) =
     (if is_nan variance \<or> is_zero variance then NaN
      else if sign_bit variance then NInf else PInf) \<and>
   rep_mean (report_of 0 mean squared_mean) =
     (if is_nan mean \<or> is_zero mean then NaN
      else if sign_bit mean then NInf else PInf) \<and>
   \<not> is_finite (rep_ub_variance (printResult mean variance 1)) \<and>
   \<not> is_finite (rep_mean (report_of 0 mean squared_mean)) \<and>
   rep_ub_variance (printResult mean (Fin 0) 1) = NaN \<and>
   rep_mean (statistics 0 states) = NaN"
  by (simp add: ub_variance_one mean_report_of_zero fmul_one fdiv_by_zero statistics_zero)

text \<open>
  The report for the single estimate 4 is produced, with \<open>NaN\<close> as its unbiased variance
  and as its confidence radius; the report for no estimate has \<open>NaN\<close> as its mean.
\<close>

theorem single_replicate_counterexample:
  "rep_mean (statistics 1 [demo_state\<lparr>value_f64 := Fin 4\<rparr>]) = Fin 4 \<and>
   rep_variance (statistics 1 [demo_state\<lparr>value_f64 := Fin 4\<rparr>]) = Fin 0 \<and>
   rep_ub_variance (statistics 1 [demo_state\<lparr>value_f64 := Fin 4\<rparr>]) = NaN \<and>
   rep_radius (statistics 1 [demo_state\<lparr>value_f64 := Fin 4\<rparr>]) = NaN \<and>
   rep_mean (statistics 0 ([] :: nat State list)) = NaN"
  by (simp add: statistics_single statistics_zero mean_report_of_zero radius_printResult
      printResult_fields(1,2) ub_variance_one fdiv_zero_zero fmul_one_zero)

text \<open>
  With no replicate the radius is \<open>NaN\<close>, whatever the variance: \<open>0 \<times> variance\<close>
  over \<open>2\<^sup>3\<^sup>2 - 1\<close> is a zero or \<open>NaN\<close>, its quotient by zero is \<open>NaN\<close>, and so are its
  square root and the product with the infinite coefficient.
\<close>

lemma radius_zero_replicates: "rep_radius (printResult mean variance 0) = NaN"
proof -
  have z: "of_u32 0 = Fin 0" by (simp add: of_u32_def)
  have m: "of_u32 (- 1) = Fin 4294967295"
    by (simp add: of_u32_def unsigned_minus_1_eq_mask mask_eq_exp_minus_1)
  have "fdiv (fdiv (fmul (Fin 0) variance) (Fin 4294967295)) (Fin 0) = NaN"
    by (cases variance) (simp_all add: fmul_def fdiv_def signed_fin_def)
  then show ?thesis
    by (simp add: radius_printResult printResult_fields z m)
qed

subsection \<open>Mean and variances\<close>

lemma sqrt_150_bounds: "0.08164 < sqrt (1 / 150)" "sqrt (1 / 150) < 0.08166"
proof -
  show "0.08164 < sqrt (1 / 150)"
    by (rule real_less_rsqrt) (simp add: power2_eq_square)
  show "sqrt (1 / 150) < 0.08166"
    by (rule real_less_lsqrt) (simp_all add: power2_eq_square)
qed

lemma three_estimates:
  assumes "map value_f64 states = [Fin 4.1, Fin 4.2, Fin 4.3]"
  shows "statistics 3 states = printResult (Fin 4.2) (Fin (1 / 150)) 3"
proof -
  have "map value_f64 states = map Fin [4.1, 4.2, 4.3]" using assms by simp
  then show ?thesis
    using statistics_of_Fin [of 3 states "[4.1, 4.2, 4.3]"] by simp
qed

text \<open>
  C2. For \<open>K \<ge> 2\<close> estimates the report has \<open>mean = sum / K\<close>, the population
  variance \<open>sum of squares / K - mean\<^sup>2\<close>, the unbiased variance
  \<open>K \<times> variance / (K - 1)\<close> and the standard deviation \<open>sqrt variance\<close>. For the
  three estimates 4.1, 4.2, 4.3 the mean is 4.2, the variance \<open>1/150 = 0.00666...\<close>, the
  unbiased variance 0.01 and the standard deviation \<open>sqrt (1/150)\<close>, between 0.08164 and
  0.08166.
\<close>

theorem statistics_formulas:
  "(2 \<le> unat K \<and> length rs = unat K \<and> map value_f64 states = map Fin rs \<longrightarrow>
      rep_mean (statistics K states) = Fin (sum_list rs / real (unat K)) \<and>
      rep_variance (statistics K states) =
        Fin (sum_list (map (\<lambda>x. x * x) rs) / real (unat K) -
             (sum_list rs / real (unat K)) * (sum_list rs / real (unat K))) \<and>
      rep_ub_variance (statistics K states) =
        Fin (real (unat K) *
             (sum_list (map (\<lambda>x. x * x) rs) / real (unat K) -
              (sum_list rs / real (unat K)) * (sum_list rs / real (unat K))) /
             (real (unat K) - 1)) \<and>
      rep_std_deviation (statistics K states) = fsqrt (rep_variance (statistics K states))) \<and>
   (map value_f64 states3 = [Fin 4.1, Fin 4.2, Fin 4.3] \<longrightarrow>
      rep_mean (statistics 3 states3) = Fin 4.2 \<and>
      rep_variance (statistics 3 states3) = Fin (1 / 150) \<and>
      rep_ub_variance (statistics 3 states3) = Fin 0.01 \<and>
      rep_std_deviation (statistics 3 states3) = Fin (sqrt (1 / 150)) \<and>
      0.08164 < sqrt (1 / 150) \<and> sqrt (1 / 150) < (0.08166 :: real))"
proof (intro conjI impI)
  assume a: "2 \<le> unat K \<and> length rs = unat K \<and> map value_f64 states = map Fin rs"
  then have nz: "K \<noteq> 0" by auto
  have st: "statistics K states =
    printResult (Fin (sum_list rs / real (unat K)))
      (Fin (sum_list (map (\<lambda>x. x * x) rs) / real (unat K) -
            (sum_list rs / real (unat K)) * (sum_list rs / real (unat K)))) K"
    using a nz by (intro statistics_of_Fin) simp_all
  show "rep_mean (statistics K states) = Fin (sum_list rs / real (unat K))"
    by (simp only: st printResult_fields)
  show "rep_variance (statistics K states) =
        Fin (sum_list (map (\<lambda>x. x * x) rs) / real (unat K) -
             (sum_list rs / real (unat K)) * (sum_list rs / real (unat K)))"
    by (simp only: st printResult_fields)
  show "rep_ub_variance (statistics K states) =
        Fin (real (unat K) *
             (sum_list (map (\<lambda>x. x * x) rs) / real (unat K) -
              (sum_list rs / real (unat K)) * (sum_list rs / real (unat K))) /
             (real (unat K) - 1))"
    using a by (simp only: st ub_variance_Fin)
  show "rep_std_deviation (statistics K states) = fsqrt (rep_variance (statistics K states))"
    by (simp only: st printResult_fields)
next
  assume b: "map value_f64 states3 = [Fin 4.1, Fin 4.2, Fin 4.3]"
  note st = three_estimates [OF b]
  show "rep_mean (statistics 3 states3) = Fin 4.2"
    by (simp only: st printResult_fields)
  show "rep_variance (statistics 3 states3) = Fin (1 / 150)"
    by (simp only: st printResult_fields)
  show "rep_ub_variance (statistics 3 states3) = Fin 0.01"
    using ub_variance_Fin [of 3 "Fin 4.2" "1 / 150"] by (simp add: st)
  show "rep_std_deviation (statistics 3 states3) = Fin (sqrt (1 / 150))"
    by (simp add: st printResult_fields fsqrt_def)
  show "0.08164 < sqrt (1 / 150)" by (rule sqrt_150_bounds)
  show "sqrt (1 / 150) < (0.08166 :: real)" by (rule sqrt_150_bounds)
qed

theorem statistics_formulas_witness:
  "2 \<le> unat (2 :: u32) \<and> length [4, 5 :: real] = unat (2 :: u32) \<and>
   map value_f64 [demo_state\<lparr>value_f64 := Fin 4\<rparr>, demo_state\<lparr>value_f64 := Fin 5\<rparr>] =
     map Fin [4, 5] \<and>
   rep_mean (statistics 2 [demo_state\<lparr>value_f64 := Fin 4\<rparr>, demo_state\<lparr>value_f64 := Fin 5\<rparr>]) =
     Fin 4.5 \<and>
   rep_variance (statistics 2 [demo_state\<lparr>value_f64 := Fin 4\<rparr>, demo_state\<lparr>value_f64 := Fin 5\<rparr>]) =
     Fin 0.25 \<and>
   rep_ub_variance (statistics 2 [demo_state\<lparr>value_f64 := Fin 4\<rparr>, demo_state\<lparr>value_f64 := Fin 5\<rparr>]) =
     Fin 0.5 \<and>
   map value_f64 (map (\<lambda>v. demo_state\<lparr>value_f64 := Fin v\<rparr>) [4.1, 4.2, 4.3]) =
     [Fin 4.1, Fin 4.2, Fin 4.3] \<and>
   rep_mean (statistics 3 (map (\<lambda>v. demo_state\<lparr>value_f64 := Fin v\<rparr>) [4.1, 4.2, 4.3])) =
     Fin 4.2 \<and>
   rep_ub_variance (statistics 3 (map (\<lambda>v. demo_state\<lparr>value_f64 := Fin v\<rparr>) [4.1, 4.2, 4.3])) =
     Fin 0.01"
  using statistics_formulas [of 2 "[4, 5]"
      "[demo_state\<lparr>value_f64 := Fin 4\<rparr>, demo_state\<lparr>value_f64 := Fin 5\<rparr>]"
      "map (\<lambda>v. demo_state\<lparr>value_f64 := Fin v\<rparr>) [4.1, 4.2, 4.3]"]
  by simp

subsection \<open>The location of the true value\<close>

lemma fmul_Fin_pos_right: "0 < b \<Longrightarrow> fmul (Fin a) (Fin b) = Fin (a * b)"
  by (simp add: fmul_def signed_fin_def)

lemma flt_Fin: "flt (Fin a) (Fin b) \<longleftrightarrow> a < b"
  by (simp add: flt_def)

lemma location_printResult:
  "rep_location (printResult mean variance K) =
    (let R = rep_radius (printResult mean variance K);
         location = fdiv (fmul (fadd (fsub real_value mean) R) (Fin 100)) R
     in if flt (Fin 100) location then fsub (Fin 200) location else location)"
  by (simp add: printResult_def Let_def)

lemma location_Fin:
  assumes "rep_radius (printResult (Fin m) variance K) = Fin r" and "0 < r"
  shows "rep_location (printResult (Fin m) variance K) =
       Fin (let location = (4 * pi / 3 - m + r) * 100 / r
            in if 100 < location then 200 - location else location)"
  using assms(2)
  by (simp add: location_printResult assms(1) real_value_def fsub_Fin fadd_Fin
      fmul_Fin_pos_right fdiv_Fin_pos flt_Fin Let_def)

lemma sqrt_radius_example: "sqrt (250000 / 10042561) = 500 / 3169"
  by (rule real_sqrt_unique) (simp_all add: power2_eq_square)

lemma radius_ten:
  "rep_radius (printResult mean variance 10) =
     fmul (fsqrt (fdiv (rep_ub_variance (printResult mean variance 10)) (Fin 10))) (Fin 3.169)"
  by (simp add: radius_printResult student_tier_buckets STUDENT_def of_u32_def)

lemma radius_example:
  "rep_radius (printResult mean (Fin (2250000 / 10042561)) 10) = Fin 0.5"
proof -
  have "rep_ub_variance (printResult mean (Fin (2250000 / 10042561)) 10) =
      Fin (2500000 / 10042561)"
    using ub_variance_Fin [of 10 mean "2250000 / 10042561"] by simp
  then have "rep_radius (printResult mean (Fin (2250000 / 10042561)) 10) =
      fmul (fsqrt (fdiv (Fin (2500000 / 10042561)) (Fin 10))) (Fin 3.169)"
    by (simp only: radius_ten)
  also have "fdiv (Fin (2500000 / 10042561)) (Fin 10) = Fin (250000 / 10042561)"
    by (simp add: fdiv_Fin_pos)
  also have "fsqrt (Fin (250000 / 10042561)) = Fin (500 / 3169)"
    by (simp add: fsqrt_def sqrt_radius_example)
  also have "fmul (Fin (500 / 3169)) (Fin 3.169) = Fin 0.5"
    by (simp add: fmul_Fin_pos_right)
  finally show ?thesis .
qed

lemma error_example: "\<bar>4 * pi / 3 - 4.2 - (- 0.01121)\<bar> < (0.00001 :: real)"
  unfolding abs_less_iff using pi_bounds by simp_all

lemma location_example:
  "97.755 < 200 * (4 * pi / 3 - 3.7)" "200 * (4 * pi / 3 - 3.7) < (97.765 :: real)"
  using pi_bounds by simp_all

text \<open>
  C7. The location printed is \<open>(real_value - mean + R) \<times> 100 / R\<close>, replaced by
  \<open>200 -\<close> itself when it exceeds 100, where \<open>real_value = 4\<pi>/3\<close> and \<open>R\<close> is the
  confidence radius. For the mean 4.2 and a variance that makes the radius 0.5 at ten
  replicates, the error is within \<open>10\<^sup>-\<^sup>5\<close> of -0.01121 and the location, \<open>200 \<times> (4\<pi>/3 - 3.7)\<close>, lies
  between 97.755 and 97.765.
\<close>

theorem location_percentage:
  "rep_location (printResult mean variance K) =
    (let R = rep_radius (printResult mean variance K);
         location = fdiv (fmul (fadd (fsub real_value mean) R) (Fin 100)) R
     in if flt (Fin 100) location then fsub (Fin 200) location else location) \<and>
   (mean = Fin m \<and> rep_radius (printResult mean variance K) = Fin r \<and> 0 < r \<longrightarrow>
      rep_location (printResult mean variance K) =
        Fin (let location = (4 * pi / 3 - m + r) * 100 / r
             in if 100 < location then 200 - location else location)) \<and>
   rep_radius (printResult (Fin 4.2) (Fin (2250000 / 10042561)) 10) = Fin 0.5 \<and>
   rep_abs_error (printResult (Fin 4.2) (Fin (2250000 / 10042561)) 10) =
     Fin (4 * pi / 3 - 4.2) \<and>
   \<bar>4 * pi / 3 - 4.2 - (- 0.01121)\<bar> < (0.00001 :: real) \<and>
   rep_location (printResult (Fin 4.2) (Fin (2250000 / 10042561)) 10) =
     Fin (200 * (4 * pi / 3 - 3.7)) \<and>
   97.755 < 200 * (4 * pi / 3 - 3.7) \<and> 200 * (4 * pi / 3 - 3.7) < (97.765 :: real)"
proof (intro conjI impI)
  show "rep_location (printResult mean variance K) =
    (let R = rep_radius (printResult mean variance K);
         location = fdiv (fmul (fadd (fsub real_value mean) R) (Fin 100)) R
     in if flt (Fin 100) location then fsub (Fin 200) location else location)"
    by (rule location_printResult)
  show "rep_radius (printResult (Fin 4.2) (Fin (2250000 / 10042561)) 10) = Fin 0.5"
    by (rule radius_example)
  show "rep_abs_error (printResult (Fin 4.2) (Fin (2250000 / 10042561)) 10) =
     Fin (4 * pi / 3 - 4.2)"
    by (simp add: printResult_fields real_value_def fsub_Fin)
  show "\<bar>4 * pi / 3 - 4.2 - (- 0.01121)\<bar> < (0.00001 :: real)"
    by (rule error_example)
  have "(4 * pi / 3 - 4.2 + 0.5) * 100 / 0.5 = 200 * (4 * pi / 3 - 3.7)"
    by simp
  moreover have "\<not> 100 < 200 * (4 * pi / 3 - 3.7)"
    using location_example(2) by simp
  ultimately show "rep_location (printResult (Fin 4.2) (Fin (2250000 / 10042561)) 10) =
     Fin (200 * (4 * pi / 3 - 3.7))"
    using location_Fin [OF radius_example] by (simp add: Let_def)
  show "97.755 < 200 * (4 * pi / 3 - 3.7)" by (rule location_example)
  show "200 * (4 * pi / 3 - 3.7) < (97.765 :: real)" by (rule location_example)
next
  assume a: "mean = Fin m \<and> rep_radius (printResult mean variance K) = Fin r \<and> 0 < r"
  then have "rep_radius (printResult (Fin m) variance K) = Fin r" and "0 < r" and "mean = Fin m"
    by blast+
  then show "rep_location (printResult mean variance K) =
        Fin (let location = (4 * pi / 3 - m + r) * 100 / r
             in if 100 < location then 200 - location else location)"
    by (simp only: location_Fin)
qed


theorem location_percentage_witness:
  "Fin 4 = Fin 4 \<and>
   rep_radius (printResult (Fin 4) (Fin (2250000 / 10042561)) 10) = Fin 0.5 \<and>
   (0 :: real) < 0.5 \<and>
   rep_location (printResult (Fin 4) (Fin (2250000 / 10042561)) 10) =
     Fin (200 - (4 * pi / 3 - 4 + 0.5) * 100 / 0.5)"
proof -
  have big: "100 < (4 * pi / 3 - 4 + 0.5) * 100 / (0.5 :: real)"
    using pi_bounds by simp
  have h: "Fin 4 = Fin 4 \<and>
      rep_radius (printResult (Fin 4) (Fin (2250000 / 10042561)) 10) = Fin 0.5 \<and>
      (0 :: real) < 0.5"
    by (simp add: radius_example)
  have "rep_location (printResult (Fin 4) (Fin (2250000 / 10042561)) 10) =
      Fin (let location = (4 * pi / 3 - 4 + 0.5) * 100 / 0.5
           in if 100 < location then 200 - location else location)"
    using location_percentage [of "Fin 4" "Fin (2250000 / 10042561)" 10 4 "0.5"] h by blast
  then have "rep_location (printResult (Fin 4) (Fin (2250000 / 10042561)) 10) =
      Fin (200 - (4 * pi / 3 - 4 + 0.5) * 100 / 0.5)"
    using big by (simp only: Let_def if_True)
  with h show ?thesis by blast
qed

subsection \<open>Streams of draws\<close>

lemma rng_after_add: "rng_after flat (a + b) g = rng_after flat b (rng_after flat a g)"
  by (induction a arbitrary: g) simp_all

lemma draws_add: "draws flat (a + b) g = draws flat a g @ draws flat b (rng_after flat a g)"
  by (induction a arbitrary: g) simp_all

lemma nth_draws: "j < n \<Longrightarrow> draws flat n g ! j = nth_draw flat g j"
proof (induction n arbitrary: g j)
  case 0
  then show ?case by simp
next
  case (Suc n)
  then show ?case by (cases j) (simp_all add: nth_draw_def)
qed

lemma nth_draw_after: "nth_draw flat (rng_after flat a g) j = nth_draw flat g (a + j)"
  by (simp add: nth_draw_def rng_after_add)

lemma discard_loop_eq: "n < 2 ^ 32 \<Longrightarrow> discard_loop flat (of_nat n) g = rng_after flat n g"
proof (induction n arbitrary: g)
  case 0
  show ?case by (simp add: discard_loop.simps)
next
  case (Suc n)
  have nz: "(of_nat (Suc n) :: u32) \<noteq> 0"
    using Suc.prems by (intro of_nat_neq_0) simp_all
  have pred: "(of_nat (Suc n) :: u32) - 1 = of_nat n" by simp
  have n: "n < 2 ^ 32" using Suc.prems by simp
  show ?case
    by (subst discard_loop.simps) (simp only: nz if_False pred Suc.IH [OF n] rng_after.simps)
qed

lemma discard_loop_unat: "discard_loop flat S g = rng_after flat (unat S) g"
  using discard_loop_eq [of "unat S" flat g] unat_lt_u32 [of S] by (simp add: of_nat_unat)


subsection \<open>Names of the status files\<close>

lemma of_char_digit: "d < 10 \<Longrightarrow> of_char (digit_char d) = 48 + d"
  by (simp add: digit_char_def)

lemma undec_dec: "undec (dec n) = n"
proof (induction n rule: dec.induct)
  case (1 n)
  show ?case
  proof (cases "n < 10")
    case True
    then show ?thesis by (subst dec.simps) (simp add: undec_def of_char_digit)
  next
    case False
    then have "undec (dec (n div 10)) = n div 10"
      using 1 by simp
    then show ?thesis
      using False by (subst dec.simps) (simp add: undec_def of_char_digit)
  qed
qed

lemma undec_dec02: "undec (dec02 n) = n"
  using undec_dec [of n] by (simp add: dec02_def undec_def)

lemma status_name_inj: "status_name i = status_name j \<longleftrightarrow> i = j"
proof
  assume "status_name i = status_name j"
  then have "dec02 i = dec02 j" by (simp add: status_name_def)
  then have "undec (dec02 i) = undec (dec02 j)" by simp
  then show "i = j" by (simp only: undec_dec02)
qed simp

subsection \<open>The status generator\<close>

lemma genmt_fold:
  "snd (fold (\<lambda>i (fs, mtRng).
             let mtRng = discard_loop flat S mtRng
             in (saveStatus (status_name i) mtRng fs, mtRng)) [0..<n] (files, g0)) =
     rng_after flat (n * unat S) g0 \<and>
   (\<forall>i<n. fst (fold (\<lambda>i (fs, mtRng).
             let mtRng = discard_loop flat S mtRng
             in (saveStatus (status_name i) mtRng fs, mtRng)) [0..<n] (files, g0))
           (status_name i) = Some (rng_after flat ((i + 1) * unat S) g0))"
proof (induction n)
  case 0
  show ?case by simp
next
  case (Suc n)
  let ?step = "\<lambda>i (fs, mtRng).
             let mtRng = discard_loop flat S mtRng
             in (saveStatus (status_name i) mtRng fs, mtRng)"
  obtain fs g where r: "fold ?step [0..<n] (files, g0) = (fs, g)"
    by (cases "fold ?step [0..<n] (files, g0)")
  have g: "g = rng_after flat (n * unat S) g0"
    using Suc.IH r by simp
  have fs: "\<forall>i<n. fs (status_name i) = Some (rng_after flat ((i + 1) * unat S) g0)"
    using Suc.IH r by simp
  have "Suc n * unat S = n * unat S + unat S" by simp
  then have g': "discard_loop flat S g = rng_after flat (Suc n * unat S) g0"
    by (simp only: discard_loop_unat g rng_after_add)
  have step: "fold ?step [0..<Suc n] (files, g0) =
      (saveStatus (status_name n) (discard_loop flat S g) fs, discard_loop flat S g)"
    using r by (simp add: Let_def)
  show ?case
    unfolding step using fs
    by (auto simp add: g' saveStatus_def status_name_inj less_Suc_eq)
qed

lemma genmt_main_files:
  assumes "genmt_main flat K S g0 files0 = (files, g)" and "i < unat K"
  shows "files (status_name i) = Some (rng_after flat ((i + 1) * unat S) g0)"
  using genmt_fold [of flat S "unat K" files0 g0] assms by (simp add: genmt_main_def)

lemma genmt_main_engine:
  assumes "genmt_main flat K S g0 files0 = (files, g)"
  shows "g = rng_after flat (unat K * unat S) g0"
  using genmt_fold [of flat S "unat K" files0 g0] assms by (simp add: genmt_main_def)

lemma rng_initRng:
  "files (status_name i) = Some g \<Longrightarrow> rng (initRng files i s) = g"
  by (simp add: initRng_def restoreStatus_def)

lemma initRng_missing:
  "files (status_name i) = None \<Longrightarrow> initRng files i s = s"
  by (simp add: initRng_def restoreStatus_def)

lemma concat_draws:
  "concat (map (\<lambda>i. draws flat S (rng_after flat (i * S) g)) [0..<K]) = draws flat (K * S) g"
proof (induction K)
  case 0
  show ?case by simp
next
  case (Suc K)
  have "Suc K * S = K * S + S" by simp
  then show ?case
    using Suc by (simp add: draws_add del: mult_Suc)
qed

lemma drop_draws: "drop a (draws flat (a + b) g) = draws flat b (rng_after flat a g)"
  by (simp add: draws_add)

lemma concat_streams:
  assumes "genmt_main flat K S g0 files0 = (files, g)"
  shows "concat (map (\<lambda>i. draws flat (unat S) (rng (initRng files i (s i)))) [0..<unat K]) =
     drop (unat S) (draws flat ((unat K + 1) * unat S) g0)"
proof -
  have "map (\<lambda>i. draws flat (unat S) (rng (initRng files i (s i)))) [0..<unat K] =
      map (\<lambda>i. draws flat (unat S) (rng_after flat (i * unat S) (rng_after flat (unat S) g0)))
        [0..<unat K]"
  proof (rule map_cong [OF refl])
    fix i assume "i \<in> set [0..<unat K]"
    then have "i < unat K" by simp
    then have "rng (initRng files i (s i)) = rng_after flat ((i + 1) * unat S) g0"
      using genmt_main_files [OF assms] by (intro rng_initRng) simp
    also have "\<dots> = rng_after flat (i * unat S) (rng_after flat (unat S) g0)"
      by (simp add: rng_after_add [symmetric] add.commute)
    finally show "draws flat (unat S) (rng (initRng files i (s i))) =
        draws flat (unat S) (rng_after flat (i * unat S) (rng_after flat (unat S) g0))"
      by simp
  qed
  then have "concat (map (\<lambda>i. draws flat (unat S) (rng (initRng files i (s i)))) [0..<unat K]) =
      draws flat (unat K * unat S) (rng_after flat (unat S) g0)"
    by (simp only: concat_draws)
  also have "\<dots> = drop (unat S) (draws flat (unat S + unat K * unat S) g0)"
    by (simp only: drop_draws)
  finally show ?thesis by (simp add: add.commute)
qed

lemma unat_SIZE: "unat SIZE = 3000000000" "unat POINTS = 1000000000" "unat REPLICATES = 10"
  by (simp_all add: SIZE_def POINTS_def DIMENSION_def REPLICATES_def)

lemma regions_ordered:
  fixes S :: nat
  assumes "i < i'" and "j < S"
  shows "(i + 1) * S + j < (i' + 1) * S"
proof -
  have "(i + 1) * S + j < (i + 1) * S + S" using assms(2) by simp
  also have "\<dots> = (i + 2) * S" by simp
  also have "\<dots> \<le> (i' + 1) * S" using assms(1) by (intro mult_le_mono1) simp
  finally show ?thesis .
qed

lemma restored_stream:
  assumes "genmt_main flat K S g0 files0 = (files, g)" and "i < unat K"
  shows "rng (initRng files i s) = rng_after flat ((i + 1) * unat S) g0"
  using genmt_main_files [OF assms] by (rule rng_initRng)

lemma restored_run:
  assumes "genmt_main flat K S g0 files0 = (files, g)" and "i < unat K"
    and "unat S = 3 * unat points"
  shows "rng (computeSphereVolume flat points elapsed (initRng files i s)) =
     rng_after flat ((i + 2) * unat S) g0"
proof -
  have "(i + 2) * unat S = (i + 1) * unat S + 3 * unat points"
    using assms(3) by simp
  then show ?thesis
    by (simp only: rng_computeSphereVolume restored_stream [OF assms(1,2)] rng_after_add)
qed

text \<open>
  C4, as the code has it. The status generator saves under index \<open>i\<close> the master engine
  as it is after \<open>(i + 1) \<times> S\<close> draws. The draw number \<open>j\<close> of the stream restored from
  it is the master's draw number \<open>(i + 1) \<times> S + j\<close>; a simulation of \<open>points\<close> points
  with \<open>S = 3 \<times> points\<close> leaves the engine where the master is after \<open>(i + 2) \<times> S\<close>
  draws, so the replicates read the regions \<open>[(i + 1) \<times> S, (i + 2) \<times> S)\<close> of the master
  sequence, which do not meet. The first \<open>S\<close> draws of the \<open>K\<close> restored streams, put
  one after the other, are the master's draws number \<open>S\<close> to \<open>(K + 1) \<times> S - 1\<close>: the
  first \<open>S\<close> draws of the master are read by no replicate. The constants of
  \<^verbatim>\<open>settings.h\<close> have \<open>SIZE = 3 \<times> POINTS\<close> without overflow.
\<close>

theorem status_streams:
  assumes "genmt_main flat K S g0 files0 = (files, g)"
  shows "(\<forall>i<unat K.
            files (status_name i) = Some (rng_after flat ((i + 1) * unat S) g0) \<and>
            (\<forall>j. nth_draw flat (rng (initRng files i (s i))) j =
                 nth_draw flat g0 ((i + 1) * unat S + j)) \<and>
            (unat S = 3 * unat points \<longrightarrow>
               rng (computeSphereVolume flat points elapsed (initRng files i (s i))) =
                 rng_after flat ((i + 2) * unat S) g0)) \<and>
         (\<forall>i i' j. (i :: nat) < i' \<and> j < unat S \<longrightarrow> (i + 1) * unat S + j < (i' + 1) * unat S) \<and>
         concat (map (\<lambda>i. draws flat (unat S) (rng (initRng files i (s i)))) [0..<unat K]) =
           drop (unat S) (draws flat ((unat K + 1) * unat S) g0) \<and>
         unat SIZE = 3 * unat POINTS"
proof (intro conjI allI impI)
  fix i assume i: "i < unat K"
  show "files (status_name i) = Some (rng_after flat ((i + 1) * unat S) g0)"
    by (rule genmt_main_files [OF assms i])
  show "nth_draw flat (rng (initRng files i (s i))) j =
      nth_draw flat g0 ((i + 1) * unat S + j)" for j
    by (simp only: restored_stream [OF assms i] nth_draw_after)
  show "rng (computeSphereVolume flat points elapsed (initRng files i (s i))) =
      rng_after flat ((i + 2) * unat S) g0" if "unat S = 3 * unat points"
    by (rule restored_run [OF assms i that])
next
  fix i i' j :: nat assume "i < i' \<and> j < unat S"
  then show "(i + 1) * unat S + j < (i' + 1) * unat S"
    by (intro regions_ordered) simp_all
next
  show "concat (map (\<lambda>i. draws flat (unat S) (rng (initRng files i (s i)))) [0..<unat K]) =
      drop (unat S) (draws flat ((unat K + 1) * unat S) g0)"
    by (rule concat_streams [OF assms])
  show "unat SIZE = 3 * unat POINTS"
    by (simp add: unat_SIZE)
qed

lemma rng_after_counter: "rng_after counter_flat n g = g + n"
  by (induction n arbitrary: g) (simp_all add: counter_flat_def)

lemma draws_pos: "0 < n \<Longrightarrow> draws flat n g = fst (flat g) # draws flat (n - 1) (snd (flat g))"
  by (cases n) simp_all

text \<open>
  With the counting engine and the constants of \<^verbatim>\<open>settings.h\<close>, the streams put one
  after the other are not the first \<open>K \<times> S\<close> draws of the master: they start at its
  draw number \<open>S\<close>.
\<close>

theorem master_prefix_counterexample:
  "concat (map (\<lambda>i. draws counter_flat (unat SIZE)
        (rng (initRng (fst (genmt_main counter_flat REPLICATES SIZE 0 Map.empty)) i demo_state)))
      [0..<unat REPLICATES]) \<noteq>
   draws counter_flat (unat REPLICATES * unat SIZE) 0"
proof -
  have "genmt_main counter_flat REPLICATES SIZE 0 Map.empty =
      (fst (genmt_main counter_flat REPLICATES SIZE 0 Map.empty),
       snd (genmt_main counter_flat REPLICATES SIZE 0 Map.empty))"
    by simp
  then have "concat (map (\<lambda>i. draws counter_flat (unat SIZE)
        (rng (initRng (fst (genmt_main counter_flat REPLICATES SIZE 0 Map.empty)) i demo_state)))
      [0..<unat REPLICATES]) =
      drop (unat SIZE) (draws counter_flat ((unat REPLICATES + 1) * unat SIZE) 0)"
    by (rule concat_streams)
  also have "(unat REPLICATES + 1) * unat SIZE = unat SIZE + unat REPLICATES * unat SIZE"
    by simp
  also have "drop (unat SIZE) (draws counter_flat (unat SIZE + unat REPLICATES * unat SIZE) 0) =
      draws counter_flat (unat REPLICATES * unat SIZE) (unat SIZE)"
    by (simp only: drop_draws rng_after_counter) simp
  finally have l: "concat (map (\<lambda>i. draws counter_flat (unat SIZE)
        (rng (initRng (fst (genmt_main counter_flat REPLICATES SIZE 0 Map.empty)) i demo_state)))
      [0..<unat REPLICATES]) =
      draws counter_flat (unat REPLICATES * unat SIZE) (unat SIZE)" .
  have pos: "0 < unat REPLICATES * unat SIZE" by (simp add: unat_SIZE)
  have "fst (counter_flat (unat SIZE)) \<noteq> fst (counter_flat 0)"
    by (simp add: counter_flat_def unat_SIZE)
  then show ?thesis
    unfolding l draws_pos [OF pos] by simp
qed

theorem status_streams_witness:
  "genmt_main counter_flat 2 3 0 Map.empty =
     (fst (genmt_main counter_flat 2 3 0 Map.empty), snd (genmt_main counter_flat 2 3 0 Map.empty)) \<and>
   1 < unat (2 :: u32) \<and> unat (3 :: u32) = 3 * unat (1 :: u32) \<and>
   (0 :: nat) < 1 \<and> 2 < unat (3 :: u32) \<and>
   fst (genmt_main counter_flat 2 3 0 Map.empty) (status_name 1) = Some 6 \<and>
   nth_draw counter_flat
     (rng (initRng (fst (genmt_main counter_flat 2 3 0 Map.empty)) 1 demo_state)) 2 =
     nth_draw counter_flat 0 8 \<and>
   rng (computeSphereVolume counter_flat 1 (Fin 1)
     (initRng (fst (genmt_main counter_flat 2 3 0 Map.empty)) 1 demo_state)) = 9 \<and>
   (0 + 1) * unat (3 :: u32) + 2 < (1 + 1) * unat (3 :: u32)"
  using status_streams [of counter_flat 2 3 0 Map.empty
      "fst (genmt_main counter_flat 2 3 0 Map.empty)"
      "snd (genmt_main counter_flat 2 3 0 Map.empty)" "\<lambda>i. demo_state" 1 "Fin 1"]
  by (simp add: rng_after_counter)

subsection \<open>The loops of main\<close>

lemma fold_update_length:
  "length (fold (\<lambda>i ys. ys[i := f i (ys ! i)]) [0..<n] xs) = length xs"
  by (induction n) simp_all

lemma fold_update_nth:
  "i < length xs \<Longrightarrow>
   fold (\<lambda>i ys. ys[i := f i (ys ! i)]) [0..<n] xs ! i = (if i < n then f i (xs ! i) else xs ! i)"
proof (induction n)
  case 0
  show ?case by simp
next
  case (Suc n)
  then show ?case
    by (cases "i = n") (simp_all add: fold_update_length nth_list_update)
qed

lemma length_load_states [simp]: "length (load_states files K states) = length states"
  by (simp add: load_states_def fold_update_length)

lemma nth_load_states:
  "i < length states \<Longrightarrow> i < unat K \<Longrightarrow>
   load_states files K states ! i = initRng files i (states ! i)"
  by (simp add: load_states_def fold_update_nth)

lemma length_start_states [simp]: "length (start_states flat points el states) = length states"
  by (simp add: start_states_def)

lemma nth_start_states:
  "i < length states \<Longrightarrow>
   start_states flat points el states ! i = computeSphereVolume flat points (el i) (states ! i)"
  by (simp add: start_states_def start_def nth_enumerate_eq)

lemma join_states_fold:
  "fold (\<lambda>i (results, mean, squared_mean).
             let v = value_f64 (states ! i)
             in (results @ [v], fadd mean v, fadd squared_mean (fmul v v)))
          [0..<n] (rs, m, q) =
   (rs @ map (\<lambda>i. value_f64 (states ! i)) [0..<n],
    foldl fadd m (map (\<lambda>i. value_f64 (states ! i)) [0..<n]),
    foldl fadd q (map (\<lambda>i. fmul (value_f64 (states ! i)) (value_f64 (states ! i))) [0..<n]))"
  by (induction n) (simp_all add: Let_def)

lemma results_join_states:
  "fst (join_states K states) = map (\<lambda>i. value_f64 (states ! i)) [0..<unat K]"
  by (simp add: join_states_def join_states_fold)

lemma sequential_pass_fold:
  assumes "n \<le> length states"
  shows "fold (\<lambda>i (sts, verdicts, dur).
             let s = computeSphereVolume flat points (el_seq i) (sts ! i);
                 v = (if value_f64 s = results ! i then Confirmed
                      else Issue (value_f64 s) (results ! i))
             in (sts[i := s], verdicts @ [v], fadd dur (duration s)))
          [0..<n] (states, [], Fin 0) =
    (map (\<lambda>i. computeSphereVolume flat points (el_seq i) (states ! i)) [0..<n] @ drop n states,
     map (\<lambda>i. if value_f64 (computeSphereVolume flat points (el_seq i) (states ! i)) = results ! i
               then Confirmed
               else Issue (value_f64 (computeSphereVolume flat points (el_seq i) (states ! i)))
                      (results ! i)) [0..<n],
     foldl fadd (Fin 0) (map el_seq [0..<n]))"
  using assms
proof (induction n)
  case 0
  show ?case by simp
next
  case (Suc n)
  let ?new = "map (\<lambda>i. computeSphereVolume flat points (el_seq i) (states ! i)) [0..<n]"
  have n: "n < length states" using Suc.prems by simp
  have nth: "(?new @ drop n states) ! n = states ! n"
    using n by (simp add: nth_append)
  have upd: "(?new @ drop n states)[n := x] = ?new @ [x] @ drop (Suc n) states" for x
    using n by (simp add: list_update_append Cons_nth_drop_Suc [symmetric])
  have dur: "duration (computeSphereVolume flat points e s) = e" for e and s :: "'a State"
    by (simp add: computeSphereVolume_def split_beta)
  show ?case
    using Suc.IH n by (simp add: Let_def nth upd dur)
qed

lemma map_nth_upt: "n = length xs \<Longrightarrow> map (\<lambda>i. f (xs ! i)) [0..<n] = map f xs"
  by (rule nth_equalityI) simp_all

lemma sequential_pass_eq:
  assumes "length states = unat K"
  shows "sequential_pass flat K points el_seq results states =
    (map (\<lambda>i. computeSphereVolume flat points (el_seq i) (states ! i)) [0..<unat K],
     map (\<lambda>i. if value_f64 (computeSphereVolume flat points (el_seq i) (states ! i)) = results ! i
               then Confirmed
               else Issue (value_f64 (computeSphereVolume flat points (el_seq i) (states ! i)))
                      (results ! i)) [0..<unat K],
     foldl fadd (Fin 0) (map el_seq [0..<unat K]))"
  unfolding sequential_pass_def
  using sequential_pass_fold [of "unat K" states flat points el_seq results] assms by simp

lemma join_states_results:
  "length states = unat K \<Longrightarrow> fst (join_states K states) = map value_f64 states"
  by (simp add: results_join_states map_nth_upt)

lemma estimation_main_fields:
  "out_results (estimation_main flat K points files el_thread el_seq states) =
     fst (join_states K (start_states flat points el_thread (load_states files K states)))"
  "out_report (estimation_main flat K points files el_thread el_seq states) =
     statistics K (start_states flat points el_thread (load_states files K states))"
  "out_verdicts (estimation_main flat K points files el_thread el_seq states) =
     fst (snd (sequential_pass flat K points el_seq
       (fst (join_states K (start_states flat points el_thread (load_states files K states))))
       (load_states files K (start_states flat points el_thread (load_states files K states)))))"
  "out_sequential_time (estimation_main flat K points files el_thread el_seq states) =
     snd (snd (sequential_pass flat K points el_seq
       (fst (join_states K (start_states flat points el_thread (load_states files K states))))
       (load_states files K (start_states flat points el_thread (load_states files K states)))))"
  "out_states (estimation_main flat K points files el_thread el_seq states) =
     fst (sequential_pass flat K points el_seq
       (fst (join_states K (start_states flat points el_thread (load_states files K states))))
       (load_states files K (start_states flat points el_thread (load_states files K states))))"
  by (simp_all add: estimation_main_def statistics_def Let_def split_beta)


lemma nth_threaded:
  assumes "length states = unat K" and "i < unat K"
  shows "start_states flat points el_thread (load_states files K states) ! i =
     computeSphereVolume flat points (el_thread i) (initRng files i (states ! i))"
  using assms by (simp add: nth_start_states nth_load_states)

lemma nth_reloaded:
  assumes "length states = unat K" and "i < unat K"
  shows "load_states files K (start_states flat points el_thread (load_states files K states)) ! i =
     initRng files i
       (computeSphereVolume flat points (el_thread i) (initRng files i (states ! i)))"
  using assms by (simp add: nth_load_states nth_threaded)

lemma main_lengths:
  assumes "length states = unat K"
  shows "length (out_results (estimation_main flat K points files el_thread el_seq states)) = unat K"
    and "length (out_verdicts (estimation_main flat K points files el_thread el_seq states)) = unat K"
    and "length (out_states (estimation_main flat K points files el_thread el_seq states)) = unat K"
  using assms
  by (simp_all add: estimation_main_fields join_states_results sequential_pass_eq)

lemma main_time:
  assumes "length states = unat K"
  shows "out_sequential_time (estimation_main flat K points files el_thread el_seq states) =
     foldl fadd (Fin 0) (map el_seq [0..<unat K])"
  using assms
  by (simp add: estimation_main_fields sequential_pass_eq)

lemma main_nth:
  assumes "length states = unat K" and "i < unat K"
  shows "out_results (estimation_main flat K points files el_thread el_seq states) ! i =
       value_f64 (computeSphereVolume flat points (el_thread i) (initRng files i (states ! i)))"
    and "out_states (estimation_main flat K points files el_thread el_seq states) ! i =
       computeSphereVolume flat points (el_seq i) (initRng files i
         (computeSphereVolume flat points (el_thread i) (initRng files i (states ! i))))"
    and "out_verdicts (estimation_main flat K points files el_thread el_seq states) ! i =
       (if value_f64 (out_states (estimation_main flat K points files el_thread el_seq states) ! i) =
           out_results (estimation_main flat K points files el_thread el_seq states) ! i
        then Confirmed
        else Issue
          (value_f64 (out_states (estimation_main flat K points files el_thread el_seq states) ! i))
          (out_results (estimation_main flat K points files el_thread el_seq states) ! i))"
  using assms
  by (simp_all add: estimation_main_fields join_states_results sequential_pass_eq
      nth_threaded nth_reloaded)

subsection \<open>Reproducibility\<close>

lemma foldl_fadd_Fin: "foldl fadd (Fin a) (map Fin xs) = Fin (a + sum_list xs)"
  by (induction xs arbitrary: a) (simp_all add: fadd_Fin add.assoc)

text \<open>
  C8. For each replicate \<open>i < K\<close> the sequential pass runs the simulation on the state
  reloaded for \<open>i\<close>, whatever the verdicts before it; its verdict is \<open>Confirmed\<close> exactly
  when the value of that run and the value kept from the threaded pass are the same
  double, bit for bit (equality of the model's values, under which \<open>NaN\<close> matches
  \<open>NaN\<close>, and no tolerance), and it is an \<open>Issue\<close> with the two values otherwise. There
  are \<open>K\<close> verdicts, and the time reported is the sum of the \<open>K\<close> durations.
\<close>

theorem reproducibility_verdicts:
  assumes "length states = unat K"
  shows "length (out_verdicts (estimation_main flat K points files el_thread el_seq states)) = unat K \<and>
    (\<forall>i<unat K.
       out_results (estimation_main flat K points files el_thread el_seq states) ! i =
         value_f64 (computeSphereVolume flat points (el_thread i) (initRng files i (states ! i))) \<and>
       out_states (estimation_main flat K points files el_thread el_seq states) ! i =
         computeSphereVolume flat points (el_seq i) (initRng files i
           (computeSphereVolume flat points (el_thread i) (initRng files i (states ! i)))) \<and>
       (out_verdicts (estimation_main flat K points files el_thread el_seq states) ! i = Confirmed
          \<longleftrightarrow>
        value_f64 (out_states (estimation_main flat K points files el_thread el_seq states) ! i) =
          out_results (estimation_main flat K points files el_thread el_seq states) ! i) \<and>
       (out_verdicts (estimation_main flat K points files el_thread el_seq states) ! i \<noteq> Confirmed
          \<longrightarrow>
        out_verdicts (estimation_main flat K points files el_thread el_seq states) ! i =
          Issue
            (value_f64 (out_states (estimation_main flat K points files el_thread el_seq states) ! i))
            (out_results (estimation_main flat K points files el_thread el_seq states) ! i))) \<and>
    out_sequential_time (estimation_main flat K points files el_thread el_seq states) =
      foldl fadd (Fin 0) (map el_seq [0..<unat K])"
proof (intro conjI allI impI)
  show "length (out_verdicts (estimation_main flat K points files el_thread el_seq states)) = unat K"
    by (rule main_lengths [OF assms])
  show "out_sequential_time (estimation_main flat K points files el_thread el_seq states) =
      foldl fadd (Fin 0) (map el_seq [0..<unat K])"
    by (rule main_time [OF assms])
next
  fix i assume i: "i < unat K"
  note v = main_nth(3) [OF assms i, of flat points files el_thread el_seq]
  show "out_results (estimation_main flat K points files el_thread el_seq states) ! i =
         value_f64 (computeSphereVolume flat points (el_thread i) (initRng files i (states ! i)))"
    by (rule main_nth(1) [OF assms i])
  show "out_states (estimation_main flat K points files el_thread el_seq states) ! i =
         computeSphereVolume flat points (el_seq i) (initRng files i
           (computeSphereVolume flat points (el_thread i) (initRng files i (states ! i))))"
    by (rule main_nth(2) [OF assms i])
  show "(out_verdicts (estimation_main flat K points files el_thread el_seq states) ! i = Confirmed)
          \<longleftrightarrow>
        (value_f64 (out_states (estimation_main flat K points files el_thread el_seq states) ! i) =
          out_results (estimation_main flat K points files el_thread el_seq states) ! i)"
    by (subst v) simp
  show "out_verdicts (estimation_main flat K points files el_thread el_seq states) ! i =
          Issue
            (value_f64 (out_states (estimation_main flat K points files el_thread el_seq states) ! i))
            (out_results (estimation_main flat K points files el_thread el_seq states) ! i)"
    if "out_verdicts (estimation_main flat K points files el_thread el_seq states) ! i \<noteq> Confirmed"
    using that by (subst v, subst (asm) v) (simp split: if_splits)
qed


lemma computeSphereVolume_counter:
  "computeSphereVolume counter_flat points e s =
     s\<lparr>rng := rng s + 3 * unat points,
       value_f64 := fdiv (fmul (Fin 8)
          (Fin (real (inside_count counter_flat (unat points) (rng s))))) (of_u32 points),
       duration := e\<rparr>"
  by (simp add: computeSphereVolume_def sphere_loop_points of_u32_inside_count rng_after_counter)

lemma inside_count_demo_next: "inside_count counter_flat 2 4294967299 = 2"
  by (simp add: inside_count_def draws_numeral counter_flat_def inside_def fmul_def fadd_def
      flt_def signed_fin_def)

lemma run_demo:
  "rng s = 4294967293 \<Longrightarrow>
   computeSphereVolume counter_flat 2 e s =
     s\<lparr>rng := 4294967299, value_f64 := Fin 4, duration := e\<rparr>"
  "rng s = 4294967299 \<Longrightarrow>
   computeSphereVolume counter_flat 2 e s =
     s\<lparr>rng := 4294967305, value_f64 := Fin 8, duration := e\<rparr>"
  by (simp_all add: computeSphereVolume_counter inside_count_demo inside_count_demo_next
      of_u32_def fmul_Fin_nonneg fdiv_Fin_pos)

theorem reproducibility_verdicts_witness:
  "length [demo_state, demo_state, demo_state] = unat (3 :: u32) \<and>
   (0 :: nat) < unat (3 :: u32) \<and> (2 :: nat) < unat (3 :: u32) \<and>
   out_verdicts (estimation_main counter_flat 3 2 [status_name 2 \<mapsto> 4294967293]
      (\<lambda>i. Fin 1) (\<lambda>i. Fin 2) [demo_state, demo_state, demo_state]) ! 0 =
     Issue (Fin 8) (Fin 4) \<and>
   out_verdicts (estimation_main counter_flat 3 2 [status_name 2 \<mapsto> 4294967293]
      (\<lambda>i. Fin 1) (\<lambda>i. Fin 2) [demo_state, demo_state, demo_state]) ! 2 = Confirmed \<and>
   out_sequential_time (estimation_main counter_flat 3 2 [status_name 2 \<mapsto> 4294967293]
      (\<lambda>i. Fin 1) (\<lambda>i. Fin 2) [demo_state, demo_state, demo_state]) = Fin 6"
proof -
  let ?files = "[status_name 2 \<mapsto> (4294967293 :: nat)]"
  let ?out = "estimation_main counter_flat 3 2 ?files (\<lambda>i. Fin 1) (\<lambda>i. Fin 2)
      [demo_state, demo_state, demo_state]"
  have len: "length [demo_state, demo_state, demo_state] = unat (3 :: u32)" by simp
  have i0: "(0 :: nat) < unat (3 :: u32)" and i2: "(2 :: nat) < unat (3 :: u32)" by simp_all
  note th = reproducibility_verdicts [OF len, of counter_flat 2 ?files "\<lambda>i. Fin 1" "\<lambda>i. Fin 2"]
  have f0: "initRng ?files 0 s = s" for s :: "nat State"
    by (rule initRng_missing) (simp add: status_name_inj)
  have f2: "initRng ?files 2 s = s\<lparr>rng := 4294967293\<rparr>" for s :: "nat State"
    by (simp add: initRng_def restoreStatus_def)
  note p0 = th [THEN conjunct2, THEN conjunct1, rule_format, OF i0]
  note p2 = th [THEN conjunct2, THEN conjunct1, rule_format, OF i2]
  have r0: "out_results ?out ! 0 = Fin 4" and s0: "value_f64 (out_states ?out ! 0) = Fin 8"
    using p0 by (simp_all add: f0 run_demo demo_state_def)
  have r2: "out_results ?out ! 2 = Fin 4" and s2: "value_f64 (out_states ?out ! 2) = Fin 4"
    using p2 by (simp_all add: f2 run_demo demo_state_def)
  have v0: "out_verdicts ?out ! 0 = Issue (Fin 8) (Fin 4)"
    using p0 [THEN conjunct2, THEN conjunct2] by (auto simp add: r0 s0)
  have v2: "out_verdicts ?out ! 2 = Confirmed"
    using p2 [THEN conjunct2, THEN conjunct2] by (auto simp add: r2 s2)
  have t: "out_sequential_time ?out = Fin 6"
    using th [THEN conjunct2, THEN conjunct2] by (simp add: fadd_Fin upt_rec)
  show ?thesis
    using len i0 i2 v0 v2 t by blast
qed

subsection \<open>Missing status files\<close>






end
